theory Spec2Isabelle
  imports Main
begin

section \<open>Data model of the emitter (src/src/emitter.c)\<close>

text \<open>
  The emitter walks a typed syntax tree and drives an assembly sink. Everything it
  consumes from other files of the compiler (the syntax tree, the symbols, the
  operands, the assembly primitives, the expression and declaration emitters, the
  type sizes) is declared in headers that are not part of the sources at hand. Those
  parts are modelled here as data and as parameters; each such definition says so.

  C \<^verbatim>\<open>int\<close> values (offsets, sizes, the word size) are mathematical integers:
  signed overflow is undefined behaviour in C and is outside this model.
\<close>

subsection \<open>Syntax tree\<close>

text \<open>
  The tags \<^verbatim>\<open>emitter.c\<close> names, and \<open>astOther\<close> for every other enumerator of the
  enumeration (expression tags among them). Which tags are expression tags is decided
  by \<^verbatim>\<open>astIsValueTag\<close>, a parameter of the model.
\<close>

datatype astTag =
    astEmpty | astModule | astUsing | astFnImpl | astDecl
  | astCode | astBranch | astLoop | astIter
  | astReturn | astBreak | astContinue
  | astOther nat

text \<open>A pointer to a symbol, and a pointer to a type descriptor.\<close>

type_synonym symPtr = nat
type_synonym typePtr = nat

text \<open>
  A node: its tag, its children (\<^verbatim>\<open>firstChild\<close> and the \<^verbatim>\<open>nextSibling\<close> chain), the
  two named slots \<^verbatim>\<open>l\<close> and \<^verbatim>\<open>r\<close> and the symbol it refers to. A null pointer is
  \<open>None\<close>.
\<close>

datatype ast =
  Ast (ast_tag: astTag) (ast_children: "ast list")
      (ast_l: "ast option") (ast_r: "ast option") (ast_symbol: "symPtr option")

definition firstChild :: "ast \<Rightarrow> ast option" where
  "firstChild Node = (case ast_children Node of [] \<Rightarrow> None | c # _ \<Rightarrow> Some c)"

subsection \<open>Symbols\<close>

datatype symTag = symScope | symId | symParam | symOther nat

text \<open>
  A symbol: tag, declared type, children (a vector, in declaration order), the offset
  this pass writes and the label (a C string; the null pointer, which the code tests
  as \<^verbatim>\<open>label == 0\<close>, is \<open>None\<close>).
\<close>

datatype sym =
  Sym (sym_tag: symTag) (sym_dt: typePtr) (sym_children: "sym list")
      (sym_offset: int) (sym_label: "string option")

text \<open>
  Symbols are mutated through pointers held by the (constant) syntax tree, so the
  function symbols live in a store, indexed by the pointer of the function
  implementation node. A function symbol owns the tree of its parameters and scopes.
\<close>

type_synonym symStore = "symPtr \<Rightarrow> sym option"

record architecture =
  wordsize :: int
  symbolMangler :: "sym \<Rightarrow> sym"

text \<open>
  The collaborators the emitter calls and whose code is in other files: they are
  parameters of every function below.
\<close>

record collab =
  astIsValueTag :: "astTag \<Rightarrow> bool"
  typeGetSize :: "architecture \<Rightarrow> typePtr \<Rightarrow> int"
  typeGetReturn :: "typePtr \<Rightarrow> typePtr"

section \<open>Frame layout\<close>

text \<open>
  \<^verbatim>\<open>emitterScopeAssignOffsets\<close>: the loop over \<^verbatim>\<open>Scope->children\<close> is
  \<open>scopeChildren\<close>; both return the updated symbols together with the running offset.
\<close>

fun emitterScopeAssignOffsets :: "collab \<Rightarrow> architecture \<Rightarrow> sym \<Rightarrow> int \<Rightarrow> sym \<times> int"
  and scopeChildren :: "collab \<Rightarrow> architecture \<Rightarrow> sym list \<Rightarrow> int \<Rightarrow> sym list \<times> int"
where
  "emitterScopeAssignOffsets K arc (Sym t d cs off lab) offset =
     (case scopeChildren K arc cs offset of
        (cs', offset') \<Rightarrow> (Sym t d cs' off lab, offset'))"
| "scopeChildren K arc [] offset = ([], offset)"
| "scopeChildren K arc (Symbol # rest) offset =
     (if sym_tag Symbol = symScope then
        (case emitterScopeAssignOffsets K arc Symbol offset of
           (Symbol', offset1) \<Rightarrow>
             (case scopeChildren K arc rest offset1 of
                (rest', offset2) \<Rightarrow> (Symbol' # rest', offset2)))
      else if sym_tag Symbol = symId then
        (case Symbol of Sym t d cs off lab \<Rightarrow>
           (case scopeChildren K arc rest (offset - typeGetSize K arc d) of
              (rest', offset2) \<Rightarrow>
                (Sym t d cs (offset - typeGetSize K arc d) lab # rest', offset2)))
      else
        (case scopeChildren K arc rest offset of
           (rest', offset2) \<Rightarrow> (Symbol # rest', offset2)))"

text \<open>
  The parameter loop of \<^verbatim>\<open>emitterFnAllocateStack\<close>: it stops (\<^verbatim>\<open>break\<close>) at the first
  child that is not a parameter.
\<close>

fun assignParams :: "collab \<Rightarrow> architecture \<Rightarrow> int \<Rightarrow> sym list \<Rightarrow> sym list" where
  "assignParams K arc lastOffset [] = []"
| "assignParams K arc lastOffset (param # rest) =
     (if sym_tag param \<noteq> symParam then param # rest
      else (case param of Sym t d cs off lab \<Rightarrow>
              Sym t d cs lastOffset lab
                # assignParams K arc (lastOffset + typeGetSize K arc d) rest))"

definition emitterFnAllocateStack :: "collab \<Rightarrow> architecture \<Rightarrow> sym \<Rightarrow> int \<times> sym" where
  "emitterFnAllocateStack K arc fn =
     (let lastOffset = 2 * wordsize arc;
          lastOffset = (if typeGetSize K arc (typeGetReturn K (sym_dt fn)) > wordsize arc
                        then lastOffset + wordsize arc else lastOffset);
          fn1 = (case fn of Sym t d cs off lab \<Rightarrow>
                   Sym t d (assignParams K arc lastOffset cs) off lab)
      in case emitterScopeAssignOffsets K arc fn1 0 of
           (fn2, offset) \<Rightarrow> (- offset, fn2))"

section \<open>Operands, the assembly sink and the emission context\<close>

datatype labelTag =
    labelReturn | labelElse | labelEndIf | labelWhile | labelFor | labelBreak | labelContinue

datatype request = requestVoid | requestFlags | requestReturn

text \<open>
  An operand is the undefined operand, a label (its kind and its number) or what the
  expression emitter returned for a node and a placement request. The emitter never
  looks into an operand: it stores it or hands it on.
\<close>

datatype operand =
    operandUndefined
  | operandLabel labelTag nat
  | operandValue "ast option" request

text \<open>
  What reaches the assembly sink, in order: one entry per call of an assembly
  primitive, and one per call of the expression emitter and of the declaration emitter
  (both write to the same sink; what they write is not the emitter's business).
\<close>

datatype emission =
    AsmFilePrologue
  | AsmFileEpilogue
  | AsmComment string
  | AsmFnPrologue "string option" int
  | AsmFnEpilogue operand
  | AsmEnter
  | AsmLeave
  | AsmLabel operand
  | AsmJump operand
  | AsmBranch operand operand
  | EmitterValue "ast option" request
  | EmitterDecl ast

record asmCtx =
  filename :: string
  emitted :: "emission list"
  labelNo :: nat

record emitterCtx =
  Asm :: asmCtx
  arch :: architecture
  labelReturnTo :: operand
  labelBreakTo :: operand
  labelContinueTo :: operand

subsection \<open>The assembly primitives\<close>

text \<open>
  Modelled from the spec: the assembly sink (\<^verbatim>\<open>asm.h\<close>, \<^verbatim>\<open>asm-amd64.h\<close>) is not part of
  the sources. Each primitive is an opaque effect on the sink, recorded in order;
  creating a label yields a fresh label of the given kind.
\<close>

definition asmInit :: "string \<Rightarrow> architecture \<Rightarrow> asmCtx" where
  "asmInit output arc = \<lparr>filename = output, emitted = [], labelNo = 0\<rparr>"

definition asmOut :: "emission \<Rightarrow> asmCtx \<Rightarrow> asmCtx" where
  "asmOut e a = a\<lparr>emitted := emitted a @ [e]\<rparr>"

definition asmCreateLabel :: "asmCtx \<Rightarrow> labelTag \<Rightarrow> operand \<times> asmCtx" where
  "asmCreateLabel a t = (operandLabel t (labelNo a), a\<lparr>labelNo := Suc (labelNo a)\<rparr>)"

definition asmFilePrologue :: "asmCtx \<Rightarrow> asmCtx" where
  "asmFilePrologue a = asmOut AsmFilePrologue a"

definition asmFileEpilogue :: "asmCtx \<Rightarrow> asmCtx" where
  "asmFileEpilogue a = asmOut AsmFileEpilogue a"

definition asmComment :: "asmCtx \<Rightarrow> string \<Rightarrow> asmCtx" where
  "asmComment a s = asmOut (AsmComment s) a"

definition asmFnPrologue :: "asmCtx \<Rightarrow> string option \<Rightarrow> int \<Rightarrow> asmCtx" where
  "asmFnPrologue a name stacksize = asmOut (AsmFnPrologue name stacksize) a"

definition asmFnEpilogue :: "asmCtx \<Rightarrow> operand \<Rightarrow> asmCtx" where
  "asmFnEpilogue a EndLabel = asmOut (AsmFnEpilogue EndLabel) a"

definition asmEnter :: "asmCtx \<Rightarrow> asmCtx" where
  "asmEnter a = asmOut AsmEnter a"

definition asmLeave :: "asmCtx \<Rightarrow> asmCtx" where
  "asmLeave a = asmOut AsmLeave a"

definition asmLabel :: "asmCtx \<Rightarrow> operand \<Rightarrow> asmCtx" where
  "asmLabel a L = asmOut (AsmLabel L) a"

definition asmJump :: "asmCtx \<Rightarrow> operand \<Rightarrow> asmCtx" where
  "asmJump a L = asmOut (AsmJump L) a"

definition asmBranch :: "asmCtx \<Rightarrow> operand \<Rightarrow> operand \<Rightarrow> asmCtx" where
  "asmBranch a Condition L = asmOut (AsmBranch Condition L) a"

subsection \<open>The expression and declaration emitters\<close>

text \<open>
  Modelled from the spec: \<^verbatim>\<open>emitterValue\<close> (\<^verbatim>\<open>emitter-value.h\<close>) and \<^verbatim>\<open>emitterDecl\<close>
  (\<^verbatim>\<open>emitter-decl.h\<close>) are not part of the sources. Each is an opaque effect on the sink
  that leaves the three jump targets of the context alone; \<^verbatim>\<open>emitterValue\<close> returns an
  operand the emitter only passes on.
\<close>

definition emitterValue :: "emitterCtx \<Rightarrow> ast option \<Rightarrow> request \<Rightarrow> operand \<times> emitterCtx" where
  "emitterValue ctx Node req =
     (operandValue Node req, ctx\<lparr>Asm := asmOut (EmitterValue Node req) (Asm ctx)\<rparr>)"

definition emitterDecl :: "emitterCtx \<Rightarrow> ast \<Rightarrow> emitterCtx" where
  "emitterDecl ctx Node = ctx\<lparr>Asm := asmOut (EmitterDecl Node) (Asm ctx)\<rparr>"

subsection \<open>Failures\<close>

text \<open>
  Two ways a run ends early: the unhandled-tag failure, and the dereference of a null
  pointer (a tree that lacks a child the code reads). Both carry the sink as it stood
  at that moment.

  Modelled from the spec: \<^verbatim>\<open>debugErrorUnhandled\<close> (\<^verbatim>\<open>debug.h\<close>) is not part of the
  sources. Following the spec it is fatal: it ends the compilation at once with a
  diagnostic that names the function, the class (\<^verbatim>\<open>"AST tag"\<close>) and the offending tag.
\<close>

datatype fault = Unhandled string string astTag | NullDereference

type_synonym abort = "fault \<times> asmCtx"

definition debugErrorUnhandled :: "string \<Rightarrow> string \<Rightarrow> astTag \<Rightarrow> emitterCtx \<Rightarrow> abort + 'a" where
  "debugErrorUnhandled functionName className t ctx =
     Inl (Unhandled functionName className t, Asm ctx)"

section \<open>Statement lowering\<close>

text \<open>\<^verbatim>\<open>emitterReturn\<close>: the value, if any, into the return slot; then the jump.\<close>

definition emitterReturn :: "emitterCtx \<Rightarrow> ast \<Rightarrow> emitterCtx" where
  "emitterReturn ctx Node =
     (let c1 = (if ast_r Node \<noteq> None
                then snd (emitterValue ctx (ast_r Node) requestReturn) else ctx)
      in c1\<lparr>Asm := asmJump (Asm c1) (labelReturnTo c1)\<rparr>)"

text \<open>Sizes of the parts of a node, for the termination of the recursion over the tree.\<close>

lemma ast_l_size: "ast_l Node = Some m \<Longrightarrow> size m < size Node"
  by (cases Node) auto

lemma ast_r_size: "ast_r Node = Some m \<Longrightarrow> size m < size Node"
  by (cases Node) auto

lemma ast_children_size: "size_list size (ast_children Node) < size Node"
  by (cases Node) auto

text \<open>
  The statement lowerer. \<open>emitterCode\<close> takes the pointer it is given, which the callers
  read from a slot of the node and which may be null; \<open>emitterLines\<close> is its loop over
  the children. The debug log (\<^verbatim>\<open>debugEnter\<close>, \<^verbatim>\<open>debugLeave\<close>, \<^verbatim>\<open>debugMsg\<close>) and
  \<^verbatim>\<open>reportSymbol\<close> write to the log only and are left out.
\<close>

function emitterCode :: "collab \<Rightarrow> emitterCtx \<Rightarrow> ast option \<Rightarrow> abort + emitterCtx"
  and emitterLines :: "collab \<Rightarrow> emitterCtx \<Rightarrow> ast list \<Rightarrow> abort + emitterCtx"
  and emitterLine :: "collab \<Rightarrow> emitterCtx \<Rightarrow> ast \<Rightarrow> abort + emitterCtx"
  and emitterBranch :: "collab \<Rightarrow> emitterCtx \<Rightarrow> ast \<Rightarrow> abort + emitterCtx"
  and emitterLoop :: "collab \<Rightarrow> emitterCtx \<Rightarrow> ast \<Rightarrow> abort + emitterCtx"
  and emitterIter :: "collab \<Rightarrow> emitterCtx \<Rightarrow> ast \<Rightarrow> abort + emitterCtx"
where
  "emitterCode K ctx NodePtr =
     (let c1 = ctx\<lparr>Asm := asmEnter (Asm ctx)\<rparr> in
      case NodePtr of
        None \<Rightarrow> Inl (NullDereference, Asm c1)
      | Some Node \<Rightarrow>
          (case emitterLines K c1 (ast_children Node) of
             Inl e \<Rightarrow> Inl e
           | Inr c2 \<Rightarrow> Inr (c2\<lparr>Asm := asmLeave (Asm c2)\<rparr>)))"
| "emitterLines K ctx [] = Inr ctx"
| "emitterLines K ctx (Current # rest) =
     (case emitterLine K ctx Current of
        Inl e \<Rightarrow> Inl e
      | Inr c1 \<Rightarrow> emitterLines K c1 rest)"
| "emitterLine K ctx Node =
     (let c1 = ctx\<lparr>Asm := asmComment (Asm ctx) ''''\<rparr> in
      if ast_tag Node = astBranch then emitterBranch K c1 Node
      else if ast_tag Node = astLoop then emitterLoop K c1 Node
      else if ast_tag Node = astIter then emitterIter K c1 Node
      else if ast_tag Node = astCode then emitterCode K c1 (Some Node)
      else if ast_tag Node = astReturn then Inr (emitterReturn c1 Node)
      else if ast_tag Node = astBreak then
        Inr (c1\<lparr>Asm := asmJump (Asm c1) (labelBreakTo c1)\<rparr>)
      else if ast_tag Node = astContinue then
        Inr (c1\<lparr>Asm := asmJump (Asm c1) (labelContinueTo c1)\<rparr>)
      else if ast_tag Node = astDecl then Inr (emitterDecl c1 Node)
      else if astIsValueTag K (ast_tag Node) then
        Inr (snd (emitterValue c1 (Some Node) requestVoid))
      else if ast_tag Node = astEmpty then Inr c1
      else debugErrorUnhandled ''emitterLine'' ''AST tag'' (ast_tag Node) c1)"
| "emitterBranch K ctx Node =
     (let (ElseLabel, a1) = asmCreateLabel (Asm ctx) labelElse;
          (EndLabel, a2) = asmCreateLabel a1 labelEndIf;
          (Condition, c1) = emitterValue (ctx\<lparr>Asm := a2\<rparr>) (firstChild Node) requestFlags;
          c2 = c1\<lparr>Asm := asmBranch (Asm c1) Condition ElseLabel\<rparr>
      in case emitterCode K c2 (ast_l Node) of
           Inl e \<Rightarrow> Inl e
         | Inr c3 \<Rightarrow>
             if ast_r Node \<noteq> None then
               (let c4 = c3\<lparr>Asm := asmComment (Asm c3) ''''\<rparr>;
                    c5 = c4\<lparr>Asm := asmJump (Asm c4) EndLabel\<rparr>;
                    c6 = c5\<lparr>Asm := asmLabel (Asm c5) ElseLabel\<rparr>
                in case emitterCode K c6 (ast_r Node) of
                     Inl e \<Rightarrow> Inl e
                   | Inr c7 \<Rightarrow> Inr (c7\<lparr>Asm := asmLabel (Asm c7) EndLabel\<rparr>))
             else Inr (c3\<lparr>Asm := asmLabel (Asm c3) ElseLabel\<rparr>))"
| "emitterLoop K ctx Node =
     (let (LoopLabel, a1) = asmCreateLabel (Asm ctx) labelWhile;
          OldBreakTo = labelBreakTo ctx;
          OldContinueTo = labelContinueTo ctx;
          (EndLabel, a2) = asmCreateLabel a1 labelBreak;
          (ContinueLabel, a3) = asmCreateLabel a2 labelContinue;
          c1 = ctx\<lparr>Asm := a3, labelBreakTo := EndLabel, labelContinueTo := ContinueLabel\<rparr>
      in case ast_l Node of
           None \<Rightarrow> Inl (NullDereference, Asm c1)
         | Some lNode \<Rightarrow>
             (let isDo = (ast_tag lNode = astCode);
                  cond = (if isDo then ast_r Node else ast_l Node);
                  code = (if isDo then ast_l Node else ast_r Node);
                  c2 = (if \<not> isDo then
                          (let (Condition, c) = emitterValue c1 cond requestFlags
                           in c\<lparr>Asm := asmBranch (Asm c) Condition EndLabel\<rparr>)
                        else c1);
                  c3 = c2\<lparr>Asm := asmLabel (Asm c2) LoopLabel\<rparr>
              in case emitterCode K c3 code of
                   Inl e \<Rightarrow> Inl e
                 | Inr c4 \<Rightarrow>
                     (let c5 = c4\<lparr>Asm := asmComment (Asm c4) ''''\<rparr>;
                          c6 = c5\<lparr>Asm := asmLabel (Asm c5) (labelContinueTo c5)\<rparr>;
                          (Condition, c7) = emitterValue c6 cond requestFlags;
                          c8 = c7\<lparr>Asm := asmBranch (Asm c7) Condition EndLabel\<rparr>;
                          c9 = c8\<lparr>Asm := asmJump (Asm c8) LoopLabel\<rparr>;
                          c10 = c9\<lparr>Asm := asmLabel (Asm c9) EndLabel\<rparr>
                      in Inr (c10\<lparr>labelBreakTo := OldBreakTo,
                                    labelContinueTo := OldContinueTo\<rparr>))))"
| "emitterIter K ctx Node =
     (case ast_children Node of
        [] \<Rightarrow> Inl (NullDereference, Asm ctx)
      | [init] \<Rightarrow> Inl (NullDereference, Asm ctx)
      | init # cond # others \<Rightarrow>
          (let iter = (case others of [] \<Rightarrow> None | i # _ \<Rightarrow> Some i);
               (LoopLabel, a1) = asmCreateLabel (Asm ctx) labelFor;
               OldBreakTo = labelBreakTo ctx;
               OldContinueTo = labelContinueTo ctx;
               (EndLabel, a2) = asmCreateLabel a1 labelBreak;
               (ContinueLabel, a3) = asmCreateLabel a2 labelContinue;
               c1 = ctx\<lparr>Asm := a3, labelBreakTo := EndLabel,
                        labelContinueTo := ContinueLabel\<rparr>
           in case (if ast_tag init = astDecl then
                      (let c = emitterDecl c1 init
                       in Inr (c\<lparr>Asm := asmComment (Asm c) ''''\<rparr>))
                    else if astIsValueTag K (ast_tag init) then
                      (let c = snd (emitterValue c1 (Some init) requestVoid)
                       in Inr (c\<lparr>Asm := asmComment (Asm c) ''''\<rparr>))
                    else if ast_tag init \<noteq> astEmpty then
                      debugErrorUnhandled ''emitterIter'' ''AST tag'' (ast_tag init) c1
                    else Inr c1) of
                Inl e \<Rightarrow> Inl e
              | Inr c2 \<Rightarrow>
                  (let c3 = c2\<lparr>Asm := asmLabel (Asm c2) LoopLabel\<rparr>;
                       c4 = (if ast_tag cond \<noteq> astEmpty then
                               (let (Condition, c) = emitterValue c3 (Some cond) requestFlags
                                in c\<lparr>Asm := asmBranch (Asm c) Condition EndLabel\<rparr>)
                             else c3)
                   in case emitterCode K c4 (ast_l Node) of
                        Inl e \<Rightarrow> Inl e
                      | Inr c5 \<Rightarrow>
                          (let c6 = c5\<lparr>Asm := asmComment (Asm c5) ''''\<rparr>;
                               c7 = c6\<lparr>Asm := asmLabel (Asm c6) (labelContinueTo c6)\<rparr>
                           in case iter of
                                None \<Rightarrow> Inl (NullDereference, Asm c7)
                              | Some it \<Rightarrow>
                                  (let c8 = (if ast_tag it \<noteq> astEmpty then
                                               (let c = snd (emitterValue c7 (Some it) requestVoid)
                                                in c\<lparr>Asm := asmComment (Asm c) ''''\<rparr>)
                                             else c7);
                                       c9 = c8\<lparr>Asm := asmJump (Asm c8) LoopLabel\<rparr>;
                                       c10 = c9\<lparr>Asm := asmLabel (Asm c9) EndLabel\<rparr>
                                   in Inr (c10\<lparr>labelBreakTo := OldBreakTo,
                                                 labelContinueTo := OldContinueTo\<rparr>))))))"
  by pat_completeness auto

termination
  apply (relation "measure (\<lambda>x. case x of
      Inl (Inl (K, ctx, p)) \<Rightarrow> (case p of None \<Rightarrow> 0 | Some n \<Rightarrow> 3 * size n + 1)
    | Inl (Inr (Inl (K, ctx, cs))) \<Rightarrow> 3 * size_list size cs
    | Inl (Inr (Inr (K, ctx, n))) \<Rightarrow> 3 * size n + 2
    | Inr (Inl (K, ctx, n)) \<Rightarrow> 3 * size n + 1
    | Inr (Inr (Inl (K, ctx, n))) \<Rightarrow> 3 * size n + 1
    | Inr (Inr (Inr (K, ctx, n))) \<Rightarrow> 3 * size n + 1)")
  apply (auto split: option.splits dest: ast_l_size ast_r_size)
  subgoal for Node using ast_children_size [of Node] by simp
  done

declare emitterCode.simps [simp del] emitterLine.simps [simp del]
  emitterBranch.simps [simp del] emitterLoop.simps [simp del] emitterIter.simps [simp del]

section \<open>Function and module lowering\<close>

text \<open>
  \<^verbatim>\<open>emitterFnImpl\<close> reads and writes the function's symbol through \<^verbatim>\<open>Node->symbol\<close>: the
  state is the context together with the symbol store. A null symbol pointer, or one
  that points at no symbol, is the null dereference.
\<close>

definition emitterFnImpl ::
  "collab \<Rightarrow> emitterCtx \<times> symStore \<Rightarrow> ast \<Rightarrow> abort + emitterCtx \<times> symStore" where
  "emitterFnImpl K st Node =
     (case st of (ctx, syms) \<Rightarrow>
      (case ast_symbol Node of
        None \<Rightarrow> Inl (NullDereference, Asm ctx)
      | Some p \<Rightarrow>
          (case syms p of
             None \<Rightarrow> Inl (NullDereference, Asm ctx)
           | Some s \<Rightarrow>
               (let s1 = (if sym_label s = None then symbolMangler (arch ctx) s else s);
                    (stacksize, s2) = emitterFnAllocateStack K (arch ctx) s1;
                    (EndLabel, a1) = asmCreateLabel (Asm ctx) labelReturn;
                    c1 = ctx\<lparr>Asm := a1, labelReturnTo := EndLabel\<rparr>;
                    c2 = c1\<lparr>Asm := asmComment (Asm c1) ''''\<rparr>;
                    c3 = c2\<lparr>Asm := asmFnPrologue (Asm c2) (sym_label s2) stacksize\<rparr>
                in case emitterCode K c3 (ast_r Node) of
                     Inl e \<Rightarrow> Inl e
                   | Inr c4 \<Rightarrow>
                       Inr (c4\<lparr>Asm := asmFnEpilogue (Asm c4) EndLabel\<rparr>, syms(p := Some s2))))))"

text \<open>\<^verbatim>\<open>emitterModule\<close>; \<open>emitterModuleLoop\<close> is its loop over the top-level nodes.\<close>

function emitterModule ::
    "collab \<Rightarrow> emitterCtx \<times> symStore \<Rightarrow> ast \<Rightarrow> abort + emitterCtx \<times> symStore"
  and emitterModuleLoop ::
    "collab \<Rightarrow> emitterCtx \<times> symStore \<Rightarrow> ast list \<Rightarrow> abort + emitterCtx \<times> symStore"
where
  "emitterModule K st Node = emitterModuleLoop K st (ast_children Node)"
| "emitterModuleLoop K st [] = Inr st"
| "emitterModuleLoop K st (Current # rest) =
     (case (if ast_tag Current = astUsing then
              (case ast_r Current of
                 Some m \<Rightarrow> emitterModule K st m
               | None \<Rightarrow> Inr st)
            else if ast_tag Current = astFnImpl then emitterFnImpl K st Current
            else if ast_tag Current = astDecl then Inr (emitterDecl (fst st) Current, snd st)
            else if ast_tag Current = astEmpty then Inr st
            else debugErrorUnhandled ''emitterModule'' ''AST tag'' (ast_tag Current) (fst st)) of
        Inl e \<Rightarrow> Inl e
      | Inr st' \<Rightarrow> emitterModuleLoop K st' rest)"
  by pat_completeness auto

termination
  apply (relation "measure (\<lambda>x. case x of
      Inl (K, st, n) \<Rightarrow> size n
    | Inr (K, st, cs) \<Rightarrow> size_list size cs)")
  apply (auto dest: ast_r_size simp: ast_children_size)
  done

declare emitterModule.simps [simp del]

text \<open>
  \<^verbatim>\<open>emitterInit\<close> fills a freshly allocated context. It assigns \<^verbatim>\<open>Asm\<close>, \<^verbatim>\<open>arch\<close>,
  \<^verbatim>\<open>labelReturnTo\<close> and \<^verbatim>\<open>labelBreakTo\<close>; \<^verbatim>\<open>labelContinueTo\<close> keeps whatever the
  allocated block held, which is the parameter \<open>uninit\<close>.
\<close>

definition emitterInit :: "string \<Rightarrow> architecture \<Rightarrow> operand \<Rightarrow> emitterCtx" where
  "emitterInit output arc uninit =
     \<lparr>Asm = asmInit output arc, arch = arc,
      labelReturnTo = operandUndefined, labelBreakTo = operandUndefined,
      labelContinueTo = uninit\<rparr>"

text \<open>\<^verbatim>\<open>emitter\<close>, the entry point: the result is the finished sink and the symbols.\<close>

definition emitter ::
  "collab \<Rightarrow> symStore \<Rightarrow> operand \<Rightarrow> ast \<Rightarrow> string \<Rightarrow> architecture \<Rightarrow> abort + asmCtx \<times> symStore" where
  "emitter K syms uninit Tree output arc =
     (let ctx = emitterInit output arc uninit;
          c1 = ctx\<lparr>Asm := asmFilePrologue (Asm ctx)\<rparr>
      in case emitterModule K (c1, syms) Tree of
           Inl e \<Rightarrow> Inl e
         | Inr (c2, syms') \<Rightarrow> Inr (asmFileEpilogue (Asm c2), syms'))"

section \<open>What a lowering emitted\<close>

text \<open>
  The entries a run added to the sink, between the context it started from and the
  context it returned.
\<close>

definition emittedBy :: "emitterCtx \<Rightarrow> emitterCtx \<Rightarrow> emission list" where
  "emittedBy c c' = drop (length (emitted (Asm c))) (emitted (Asm c'))"

text \<open>
  Two ways a context changes while statements are lowered: entries are added to the
  sink, and labels are created. \<open>lowered c c'\<close> says that \<open>c'\<close> is \<open>c\<close> after such
  changes only, none of the added entries being a prologue or an epilogue.
\<close>

definition emit :: "emission list \<Rightarrow> emitterCtx \<Rightarrow> emitterCtx" where
  "emit es c = c\<lparr>Asm := (Asm c)\<lparr>emitted := emitted (Asm c) @ es\<rparr>\<rparr>"

definition newLabels :: "nat \<Rightarrow> emitterCtx \<Rightarrow> emitterCtx" where
  "newLabels k c = c\<lparr>Asm := (Asm c)\<lparr>labelNo := labelNo (Asm c) + k\<rparr>\<rparr>"

fun stmtEmission :: "emission \<Rightarrow> bool" where
  "stmtEmission AsmFilePrologue = False"
| "stmtEmission AsmFileEpilogue = False"
| "stmtEmission (AsmFnPrologue n s) = False"
| "stmtEmission (AsmFnEpilogue L) = False"
| "stmtEmission e = True"

definition lowered :: "emitterCtx \<Rightarrow> emitterCtx \<Rightarrow> bool" where
  "lowered c c' \<longleftrightarrow> (\<exists>es k. c' = emit es (newLabels k c) \<and> list_all stmtEmission es)"

text \<open>The condition check: the condition evaluated into the flags, then the conditional jump.\<close>

definition condCheck :: "ast option \<Rightarrow> operand \<Rightarrow> emission list" where
  "condCheck cond L = [EmitterValue cond requestFlags, AsmBranch (operandValue cond requestFlags) L]"

text \<open>A collaborator instance and an architecture for the worked examples.\<close>

definition exampleK :: collab where
  "exampleK = \<lparr>astIsValueTag = (\<lambda>t. case t of astOther n \<Rightarrow> True | _ \<Rightarrow> False),
              typeGetSize = (\<lambda>a t. int t),
              typeGetReturn = (\<lambda>t. t)\<rparr>"

definition exampleArch :: architecture where
  "exampleArch = \<lparr>wordsize = 8, symbolMangler = (\<lambda>s. s)\<rparr>"

text \<open>
  The order in which the walk of \<^verbatim>\<open>emitterScopeAssignOffsets\<close> meets the automatic
  variables, in the spec's words: depth first, in declaration order, a scope symbol
  being entered and an identifier symbol taken. \<open>scopeIds\<close> lists the identifier
  symbols under a list of children, \<open>symIds\<close> those under one symbol.
\<close>

fun symIds :: "sym \<Rightarrow> sym list"
  and scopeIds :: "sym list \<Rightarrow> sym list"
where
  "symIds (Sym t d cs off lab) = scopeIds cs"
| "scopeIds [] = []"
| "scopeIds (s # ss) =
     (if sym_tag s = symScope then symIds s @ scopeIds ss
      else if sym_tag s = symId then s # scopeIds ss
      else scopeIds ss)"

text \<open>
  Running offsets, in the spec's words. Upwards for parameters: each gets the running
  offset, which then advances by its size. Downwards for automatic variables: the
  running offset is first decremented by the size, then assigned.
\<close>

fun offsetsUp :: "int \<Rightarrow> int list \<Rightarrow> int list" where
  "offsetsUp off [] = []"
| "offsetsUp off (sz # szs) = off # offsetsUp (off + sz) szs"

fun offsetsDown :: "int \<Rightarrow> int list \<Rightarrow> int list" where
  "offsetsDown off [] = []"
| "offsetsDown off (sz # szs) = (off - sz) # offsetsDown (off - sz) szs"

text \<open>The storage size of a symbol: \<^verbatim>\<open>typeGetSize(arch, Symbol->dt)\<close>.\<close>

definition symSize :: "collab \<Rightarrow> architecture \<Rightarrow> sym \<Rightarrow> int" where
  "symSize K arc s = typeGetSize K arc (sym_dt s)"

text \<open>
  Scenario A of the spec: a function with parameters \<open>a\<close> and \<open>b\<close> of 4 bytes each and a
  return type of 8 bytes. Scenario B: the body \<^verbatim>\<open>{ int x; { int y; } }\<close>, \<^verbatim>\<open>int\<close> of 4
  bytes. In the examples a type pointer stands for a type of that many bytes.
\<close>

definition scenarioA :: sym where
  "scenarioA = Sym symId 8
     [Sym symParam 4 [] 0 (Some ''a''), Sym symParam 4 [] 0 (Some ''b'')] 0 (Some ''f'')"

definition scenarioB :: sym where
  "scenarioB = Sym symId 8
     [Sym symId 4 [] 0 (Some ''x''),
      Sym symScope 0 [Sym symId 4 [] 0 (Some ''y'')] 0 None] 0 (Some ''g'')"

text \<open>
  The context in which \<^verbatim>\<open>emitterLoop\<close> and \<^verbatim>\<open>emitterIter\<close> work once they have created
  their three labels (loop top, exit, continue, in this order) and installed the exit
  label as the break-to target and the continue label as the continue-to target.
\<close>

definition loopTargets :: "emitterCtx \<Rightarrow> emitterCtx" where
  "loopTargets ctx =
     (newLabels 3 ctx)\<lparr>labelBreakTo := operandLabel labelBreak (labelNo (Asm ctx) + 1),
                         labelContinueTo := operandLabel labelContinue (labelNo (Asm ctx) + 2)\<rparr>"

text \<open>
  Nodes for the worked examples: an expression \<open>c\<close>, the statements \<^verbatim>\<open>break;\<close> and
  \<^verbatim>\<open>continue;\<close>, the block \<^verbatim>\<open>{ break; }\<close>, the loops \<^verbatim>\<open>while (c) { break; }\<close> and
  \<^verbatim>\<open>do { break; } while (c);\<close>, and a fresh context.
\<close>

definition exprC :: ast where
  "exprC = Ast (astOther 1) [] None None None"

definition breakStmt :: ast where
  "breakStmt = Ast astBreak [] None None None"

definition breakBlock :: ast where
  "breakBlock = Ast astCode [breakStmt] None None None"

definition whileLoop :: ast where
  "whileLoop = Ast astLoop [] (Some exprC) (Some breakBlock) None"

definition doLoop :: ast where
  "doLoop = Ast astLoop [] (Some breakBlock) (Some exprC) None"

definition ctx0 :: emitterCtx where
  "ctx0 = emitterInit ''out.s'' exampleArch operandUndefined"

text \<open>
  Scenario C of the spec, \<^verbatim>\<open>if (c) { A } else { B }\<close>, with expression statements \<open>A\<close>
  and \<open>B\<close>, and the same branch without its else part.
\<close>

definition exprA :: ast where
  "exprA = Ast (astOther 2) [] None None None"

definition exprB :: ast where
  "exprB = Ast (astOther 3) [] None None None"

definition ifElse :: ast where
  "ifElse = Ast astBranch [exprC]
     (Some (Ast astCode [exprA] None None None)) (Some (Ast astCode [exprB] None None None)) None"

definition ifOnly :: ast where
  "ifOnly = Ast astBranch [exprC] (Some (Ast astCode [exprA] None None None)) None None"

text \<open>
  Scenario D of the spec, \<^verbatim>\<open>for (;;) { if (done) break; }\<close>: init, condition and step
  are empty nodes.
\<close>

definition emptyStmt :: ast where
  "emptyStmt = Ast astEmpty [] None None None"

definition exprDone :: ast where
  "exprDone = Ast (astOther 4) [] None None None"

definition forEver :: ast where
  "forEver = Ast astIter [emptyStmt, emptyStmt, emptyStmt]
     (Some (Ast astCode [Ast astBranch [exprDone] (Some breakBlock) None None] None None None))
     None None"


text \<open>The function epilogues among the entries of the sink.\<close>

fun isFnEpilogue :: "emission \<Rightarrow> bool" where
  "isFnEpilogue (AsmFnEpilogue L) = True"
| "isFnEpilogue e = False"

text \<open>
  A function implementation with two return statements, \<^verbatim>\<open>{ return c; return; }\<close>, whose
  symbol is the function of scenario A, and the symbol store that holds it.
\<close>

definition twoReturns :: ast where
  "twoReturns = Ast astFnImpl [] None
     (Some (Ast astCode [Ast astReturn [] None (Some exprC) None,
                         Ast astReturn [] None None None] None None None))
     (Some 0)"

definition exampleSyms :: symStore where
  "exampleSyms = (\<lambda>q. if q = 0 then Some scenarioA else None)"

text \<open>
  A mangling rule that labels a symbol with its present label, or \<^verbatim>\<open>f\<close> when it has
  none, behind an underscore: applied twice it gives \<^verbatim>\<open>__f\<close>. With it, a function
  symbol that has no label yet, the store that holds it, and the fresh context of an
  architecture with this rule.
\<close>

definition underscoreMangler :: "sym \<Rightarrow> sym" where
  "underscoreMangler s =
     Sym (sym_tag s) (sym_dt s) (sym_children s) (sym_offset s)
       (Some (''_'' @ (case sym_label s of None \<Rightarrow> ''f'' | Some l \<Rightarrow> l)))"

definition unlabelled :: sym where
  "unlabelled = Sym symId 8 [Sym symParam 4 [] 0 (Some ''a'')] 0 None"

definition unlabelledSyms :: symStore where
  "unlabelledSyms = (\<lambda>q. if q = 0 then Some unlabelled else None)"

definition ctxMangling :: emitterCtx where
  "ctxMangling =
     emitterInit ''out.s'' (exampleArch\<lparr>symbolMangler := underscoreMangler\<rparr>) operandUndefined"

text \<open>
  The tags for which the if-chain of \<^verbatim>\<open>emitterLine\<close>, and the one of \<^verbatim>\<open>emitterModule\<close>, has
  a branch of its own; every other tag falls to the final \<^verbatim>\<open>else\<close>.
\<close>

definition lineTagHandled :: "collab \<Rightarrow> astTag \<Rightarrow> bool" where
  "lineTagHandled K t \<longleftrightarrow>
     t = astBranch \<or> t = astLoop \<or> t = astIter \<or> t = astCode \<or> t = astReturn
     \<or> t = astBreak \<or> t = astContinue \<or> t = astDecl \<or> astIsValueTag K t \<or> t = astEmpty"

definition moduleTagHandled :: "astTag \<Rightarrow> bool" where
  "moduleTagHandled t \<longleftrightarrow> t = astUsing \<or> t = astFnImpl \<or> t = astDecl \<or> t = astEmpty"

text \<open>
  A module node at statement position, which no branch of \<^verbatim>\<open>emitterLine\<close> takes, inside
  \<^verbatim>\<open>f () { a; if (c) { <module>; b; } b; }\<close>; the module that includes a module with one
  declaration, implements this function and ends in a declaration; and a module with
  a return statement at top level between a declaration and the function with the
  two return statements.
\<close>

definition strayNode :: ast where
  "strayNode = Ast astModule [] None None None"

definition declNode :: ast where
  "declNode = Ast astDecl [] None None None"

definition strayFn :: ast where
  "strayFn = Ast astFnImpl [] None
     (Some (Ast astCode
        [exprA,
         Ast astBranch [exprC] (Some (Ast astCode [strayNode, exprB] None None None)) None None,
         exprB] None None None))
     (Some 0)"

definition strayModule :: ast where
  "strayModule = Ast astModule
     [Ast astUsing [] None (Some (Ast astModule [declNode] None None None)) None,
      strayFn, declNode] None None None"

definition strayTop :: ast where
  "strayTop = Ast astModule
     [declNode, Ast astReturn [] None None None, twoReturns] None None None"

text \<open>
  A function whose one variable \<^verbatim>\<open>z\<close> has a type of size 0 and holds offset 5 before the
  layout; and a sizing of types that gives type \<open>t\<close> the size \<open>- t\<close>.
\<close>

definition zeroSized :: sym where
  "zeroSized = Sym symId 8 [Sym symId 0 [] 5 (Some ''z'')] 0 (Some ''h'')"

definition negativeK :: collab where
  "negativeK = exampleK\<lparr>typeGetSize := \<lambda>a t. - int t\<rparr>"






section \<open>Lemmas\<close>

lemmas prims = asmCreateLabel_def emitterValue_def emitterDecl_def asmOut_def asmBranch_def asmLabel_def
  asmEnter_def asmComment_def asmJump_def asmLeave_def debugErrorUnhandled_def

lemma emit_fields [simp]:
  "emitted (Asm (emit es c)) = emitted (Asm c) @ es"
  "labelNo (Asm (emit es c)) = labelNo (Asm c)"
  "filename (Asm (emit es c)) = filename (Asm c)"
  "arch (emit es c) = arch c"
  "labelReturnTo (emit es c) = labelReturnTo c"
  "labelBreakTo (emit es c) = labelBreakTo c"
  "labelContinueTo (emit es c) = labelContinueTo c"
  by (simp_all add: emit_def)

lemma newLabels_fields [simp]:
  "emitted (Asm (newLabels k c)) = emitted (Asm c)"
  "labelNo (Asm (newLabels k c)) = labelNo (Asm c) + k"
  "filename (Asm (newLabels k c)) = filename (Asm c)"
  "arch (newLabels k c) = arch c"
  "labelReturnTo (newLabels k c) = labelReturnTo c"
  "labelBreakTo (newLabels k c) = labelBreakTo c"
  "labelContinueTo (newLabels k c) = labelContinueTo c"
  by (simp_all add: newLabels_def)

lemma emit_emit: "emit es (emit es' c) = emit (es' @ es) c"
  by (simp add: emit_def)

lemma emit_Nil: "emit [] c = c"
  by (simp add: emit_def)

lemma newLabels_0: "newLabels 0 c = c"
  by (simp add: newLabels_def)

lemma lowered_refl: "lowered c c"
  unfolding lowered_def by (rule exI [of _ "[]"], rule exI [of _ 0]) (simp add: emit_Nil newLabels_0)

lemma lowered_trans: "lowered a b \<Longrightarrow> lowered b c \<Longrightarrow> lowered a c"
proof -
  assume "lowered a b" "lowered b c"
  then obtain es k es' k' where b: "b = emit es (newLabels k a)" "list_all stmtEmission es"
    and c: "c = emit es' (newLabels k' b)" "list_all stmtEmission es'"
    unfolding lowered_def by blast
  have "c = emit (es @ es') (newLabels (k + k') a)"
    by (simp add: b c emit_def newLabels_def add.assoc)
  moreover have "list_all stmtEmission (es @ es')" using b c by simp
  ultimately show ?thesis unfolding lowered_def by blast
qed

lemma lowered_emit: "list_all stmtEmission es \<Longrightarrow> lowered c (emit es c)"
  unfolding lowered_def by (rule exI [of _ es], rule exI [of _ 0]) (simp add: newLabels_0)

lemma lowered_newLabels: "lowered c (newLabels k c)"
  unfolding lowered_def by (rule exI [of _ "[]"], rule exI [of _ k]) (simp add: emit_Nil)

lemma lowered_fields:
  assumes "lowered c c'"
  shows "arch c' = arch c" "labelReturnTo c' = labelReturnTo c"
    "labelBreakTo c' = labelBreakTo c" "labelContinueTo c' = labelContinueTo c"
    "filename (Asm c') = filename (Asm c)" "labelNo (Asm c) \<le> labelNo (Asm c')"
  using assms unfolding lowered_def by auto

lemma lowered_restore:
  assumes "lowered (c\<lparr>labelBreakTo := b, labelContinueTo := k\<rparr>) c'"
  shows "lowered c (c'\<lparr>labelBreakTo := labelBreakTo c, labelContinueTo := labelContinueTo c\<rparr>)"
proof -
  from assms obtain es n where c': "c' = emit es (newLabels n (c\<lparr>labelBreakTo := b, labelContinueTo := k\<rparr>))"
    and es: "list_all stmtEmission es" unfolding lowered_def by blast
  have "c'\<lparr>labelBreakTo := labelBreakTo c, labelContinueTo := labelContinueTo c\<rparr> = emit es (newLabels n c)"
    by (simp add: c' emit_def newLabels_def)
  with es show ?thesis unfolding lowered_def by blast
qed


subsection \<open>The statement lowerer in terms of what it adds to the sink\<close>

text \<open>
  Each function of the statement lowerer, with its sequence of primitive calls
  collected: the labels it creates, the entries it adds before and after the nested
  lowerings, and the targets it installs and restores.
\<close>

lemma emitterCode_nf:
  "emitterCode K ctx p =
     (case p of
        None \<Rightarrow> Inl (NullDereference, Asm (emit [AsmEnter] ctx))
      | Some Node \<Rightarrow>
          (case emitterLines K (emit [AsmEnter] ctx) (ast_children Node) of
             Inl e \<Rightarrow> Inl e
           | Inr c2 \<Rightarrow> Inr (emit [AsmLeave] c2)))"
  by (simp add: emitterCode.simps Let_def prims emit_def split: option.splits cong: sum.case_cong)

lemma emitterReturn_nf:
  "emitterReturn ctx Node =
     emit ((if ast_r Node \<noteq> None then [EmitterValue (ast_r Node) requestReturn] else [])
           @ [AsmJump (labelReturnTo ctx)]) ctx"
  by (simp add: emitterReturn_def Let_def prims emit_def)

lemma emitterLine_nf:
  "emitterLine K ctx Node =
     (let c1 = emit [AsmComment ''''] ctx in
      if ast_tag Node = astBranch then emitterBranch K c1 Node
      else if ast_tag Node = astLoop then emitterLoop K c1 Node
      else if ast_tag Node = astIter then emitterIter K c1 Node
      else if ast_tag Node = astCode then emitterCode K c1 (Some Node)
      else if ast_tag Node = astReturn then Inr (emitterReturn c1 Node)
      else if ast_tag Node = astBreak then Inr (emit [AsmJump (labelBreakTo ctx)] c1)
      else if ast_tag Node = astContinue then Inr (emit [AsmJump (labelContinueTo ctx)] c1)
      else if ast_tag Node = astDecl then Inr (emit [EmitterDecl Node] c1)
      else if astIsValueTag K (ast_tag Node) then
        Inr (emit [EmitterValue (Some Node) requestVoid] c1)
      else if ast_tag Node = astEmpty then Inr c1
      else Inl (Unhandled ''emitterLine'' ''AST tag'' (ast_tag Node), Asm c1))"
  by (simp add: emitterLine.simps Let_def prims emit_def)

lemma emitterBranch_nf:
  "emitterBranch K ctx Node =
     (let n = labelNo (Asm ctx);
          ElseLabel = operandLabel labelElse n;
          EndLabel = operandLabel labelEndIf (n + 1);
          c2 = emit [EmitterValue (firstChild Node) requestFlags,
                     AsmBranch (operandValue (firstChild Node) requestFlags) ElseLabel]
                 (newLabels 2 ctx)
      in case emitterCode K c2 (ast_l Node) of
           Inl e \<Rightarrow> Inl e
         | Inr c3 \<Rightarrow>
             if ast_r Node \<noteq> None then
               (case emitterCode K
                       (emit [AsmComment '''', AsmJump EndLabel, AsmLabel ElseLabel] c3)
                       (ast_r Node) of
                  Inl e \<Rightarrow> Inl e
                | Inr c7 \<Rightarrow> Inr (emit [AsmLabel EndLabel] c7))
             else Inr (emit [AsmLabel ElseLabel] c3))"
  by (simp add: emitterBranch.simps Let_def prims emit_def newLabels_def numeral_2_eq_2
      cong: sum.case_cong if_cong)

lemma emitterLoop_nf:
  "emitterLoop K ctx Node =
     (let n = labelNo (Asm ctx);
          LoopLabel = operandLabel labelWhile n;
          EndLabel = operandLabel labelBreak (n + 1);
          ContinueLabel = operandLabel labelContinue (n + 2);
          c1 = (newLabels 3 ctx)\<lparr>labelBreakTo := EndLabel, labelContinueTo := ContinueLabel\<rparr>
      in case ast_l Node of
           None \<Rightarrow> Inl (NullDereference, Asm c1)
         | Some lNode \<Rightarrow>
             (let isDo = (ast_tag lNode = astCode);
                  cond = (if isDo then ast_r Node else ast_l Node);
                  code = (if isDo then ast_l Node else ast_r Node);
                  check = [EmitterValue cond requestFlags,
                           AsmBranch (operandValue cond requestFlags) EndLabel]
              in case emitterCode K
                        (emit ((if isDo then [] else check) @ [AsmLabel LoopLabel]) c1) code of
                   Inl e \<Rightarrow> Inl e
                 | Inr c4 \<Rightarrow>
                     Inr ((emit ([AsmComment '''', AsmLabel (labelContinueTo c4)] @ check
                                 @ [AsmJump LoopLabel, AsmLabel EndLabel]) c4)
                          \<lparr>labelBreakTo := labelBreakTo ctx,
                           labelContinueTo := labelContinueTo ctx\<rparr>)))"
  by (simp add: emitterLoop.simps Let_def prims emit_def newLabels_def numeral_3_eq_3
      split: option.splits cong: sum.case_cong)

lemma emitterIter_nf:
  "emitterIter K ctx Node =
     (case ast_children Node of
        [] \<Rightarrow> Inl (NullDereference, Asm ctx)
      | [init] \<Rightarrow> Inl (NullDereference, Asm ctx)
      | init # cond # others \<Rightarrow>
          (let n = labelNo (Asm ctx);
               LoopLabel = operandLabel labelFor n;
               EndLabel = operandLabel labelBreak (n + 1);
               ContinueLabel = operandLabel labelContinue (n + 2);
               c1 = (newLabels 3 ctx)\<lparr>labelBreakTo := EndLabel,
                                        labelContinueTo := ContinueLabel\<rparr>
           in if ast_tag init \<noteq> astDecl \<and> \<not> astIsValueTag K (ast_tag init)
                 \<and> ast_tag init \<noteq> astEmpty
              then Inl (Unhandled ''emitterIter'' ''AST tag'' (ast_tag init), Asm c1)
              else
                (case emitterCode K
                        (emit ((if ast_tag init = astDecl
                                then [EmitterDecl init, AsmComment '''']
                                else if astIsValueTag K (ast_tag init)
                                then [EmitterValue (Some init) requestVoid, AsmComment '''']
                                else [])
                               @ [AsmLabel LoopLabel]
                               @ (if ast_tag cond \<noteq> astEmpty
                                  then [EmitterValue (Some cond) requestFlags,
                                        AsmBranch (operandValue (Some cond) requestFlags) EndLabel]
                                  else [])) c1)
                        (ast_l Node) of
                   Inl e \<Rightarrow> Inl e
                 | Inr c5 \<Rightarrow>
                     (case others of
                        [] \<Rightarrow> Inl (NullDereference,
                                    Asm (emit [AsmComment '''', AsmLabel (labelContinueTo c5)] c5))
                      | it # _ \<Rightarrow>
                          Inr ((emit ([AsmComment '''', AsmLabel (labelContinueTo c5)]
                                      @ (if ast_tag it \<noteq> astEmpty
                                         then [EmitterValue (Some it) requestVoid, AsmComment '''']
                                         else [])
                                      @ [AsmJump LoopLabel, AsmLabel EndLabel]) c5)
                               \<lparr>labelBreakTo := labelBreakTo ctx,
                                labelContinueTo := labelContinueTo ctx\<rparr>)))))"
  by (auto simp add: emitterIter.simps Let_def prims emit_def newLabels_def numeral_3_eq_3
      split: list.splits cong: sum.case_cong)

lemma assignParams_length: "length (assignParams K arc b cs) = length cs"
  by (induction cs arbitrary: b) (auto split: sym.splits)

lemma ast_child_size: "c \<in> set (ast_children m) \<Longrightarrow> size c < size m"
  by (cases m) (auto simp: less_Suc_eq_le dest: size_list_estimation' [where f = size, OF _ order_refl])

lemma emitterLines_lowered:
  assumes "\<And>c ctx c'. c \<in> set cs \<Longrightarrow> emitterLine K ctx c = Inr c' \<Longrightarrow> lowered ctx c'"
    and "emitterLines K ctx cs = Inr c'"
  shows "lowered ctx c'"
  using assms
proof (induction cs arbitrary: ctx)
  case Nil
  then show ?case by (simp add: lowered_refl)
next
  case (Cons a cs)
  from Cons.prems(2) obtain c1 where a: "emitterLine K ctx a = Inr c1"
    and r: "emitterLines K c1 cs = Inr c'"
    by (auto split: sum.splits)
  have "lowered ctx c1" by (rule Cons.prems(1) [OF _ a]) simp
  moreover have "lowered c1 c'"
  proof (rule Cons.IH [OF _ r])
    fix c ctx c'
    assume "c \<in> set cs" "emitterLine K ctx c = Inr c'"
    then show "lowered ctx c'" using Cons.prems(1) [of c ctx c'] by simp
  qed
  ultimately show ?case by (rule lowered_trans)
qed

lemma emitterCode_InrE:
  assumes "emitterCode K ctx p = Inr c'"
  obtains Node c2 where "p = Some Node"
    "emitterLines K (emit [AsmEnter] ctx) (ast_children Node) = Inr c2"
    "c' = emit [AsmLeave] c2"
  using assms by (auto simp: emitterCode_nf split: sum.splits option.splits)

lemma emitterCode_lowered:
  assumes "\<And>c ctx c'. c \<in> set (ast_children m) \<Longrightarrow> emitterLine K ctx c = Inr c' \<Longrightarrow> lowered ctx c'"
    and "emitterCode K ctx (Some m) = Inr c'"
  shows "lowered ctx c'"
proof -
  from assms(2) obtain c2 where l: "emitterLines K (emit [AsmEnter] ctx) (ast_children m) = Inr c2"
    and c': "c' = emit [AsmLeave] c2"
    by (auto elim: emitterCode_InrE)
  have "lowered ctx (emit [AsmEnter] ctx)" by (simp add: lowered_emit)
  moreover have "lowered (emit [AsmEnter] ctx) c2" using assms(1) l by (rule emitterLines_lowered)
  moreover have "lowered c2 c'" unfolding c' by (simp add: lowered_emit)
  ultimately show ?thesis by (blast intro: lowered_trans)
qed

lemma list_all_condCheck [simp]: "list_all stmtEmission (condCheck cond L)"
  by (simp add: condCheck_def)

lemma emitterBranch_InrE:
  assumes "emitterBranch K ctx Node = Inr c'"
  obtains c3 c7 where
    "emitterCode K
       (emit (condCheck (firstChild Node) (operandLabel labelElse (labelNo (Asm ctx))))
          (newLabels 2 ctx)) (ast_l Node) = Inr c3"
    "ast_r Node \<noteq> None"
    "emitterCode K
       (emit [AsmComment '''', AsmJump (operandLabel labelEndIf (labelNo (Asm ctx) + 1)),
              AsmLabel (operandLabel labelElse (labelNo (Asm ctx)))] c3) (ast_r Node) = Inr c7"
    "c' = emit [AsmLabel (operandLabel labelEndIf (labelNo (Asm ctx) + 1))] c7"
  | c3 where
    "emitterCode K
       (emit (condCheck (firstChild Node) (operandLabel labelElse (labelNo (Asm ctx))))
          (newLabels 2 ctx)) (ast_l Node) = Inr c3"
    "ast_r Node = None"
    "c' = emit [AsmLabel (operandLabel labelElse (labelNo (Asm ctx)))] c3"
  using assms
  by (cases "ast_r Node = None")
     (auto simp: emitterBranch_nf Let_def condCheck_def split: sum.splits)

lemma emitterBranch_lowered:
  assumes code: "\<And>ctx p c'. p = ast_l n \<or> p = ast_r n \<Longrightarrow> emitterCode K ctx p = Inr c' \<Longrightarrow> lowered ctx c'"
    and run: "emitterBranch K ctx n = Inr c'"
  shows "lowered ctx c'"
proof -
  let ?c2 = "emit (condCheck (firstChild n) (operandLabel labelElse (labelNo (Asm ctx)))) (newLabels 2 ctx)"
  have l2: "lowered ctx ?c2"
    by (rule lowered_trans [OF lowered_newLabels [of ctx 2]]) (simp add: lowered_emit)
  from run show ?thesis
  proof (cases rule: emitterBranch_InrE)
    case (1 c3 c7)
    have "lowered ?c2 c3" using code 1(1) by blast
    moreover have "lowered c3 (emit [AsmComment '''', AsmJump (operandLabel labelEndIf (labelNo (Asm ctx) + 1)),
              AsmLabel (operandLabel labelElse (labelNo (Asm ctx)))] c3)" by (simp add: lowered_emit)
    moreover have "lowered (emit [AsmComment '''', AsmJump (operandLabel labelEndIf (labelNo (Asm ctx) + 1)),
              AsmLabel (operandLabel labelElse (labelNo (Asm ctx)))] c3) c7" using code 1(3) by blast
    moreover have "lowered c7 c'" unfolding 1(4) by (simp add: lowered_emit)
    ultimately show ?thesis using l2 by (blast intro: lowered_trans)
  next
    case (2 c3)
    have "lowered ?c2 c3" using code 2(1) by blast
    moreover have "lowered c3 c'" unfolding 2(3) by (simp add: lowered_emit)
    ultimately show ?thesis using l2 by (blast intro: lowered_trans)
  qed
qed

lemma newLabels_targets:
  "(newLabels j c)\<lparr>labelBreakTo := b, labelContinueTo := k\<rparr>
     = newLabels j (c\<lparr>labelBreakTo := b, labelContinueTo := k\<rparr>)"
  by (simp add: newLabels_def)

lemma loop_lowered:
  assumes "lowered (emit pre ((newLabels j ctx)\<lparr>labelBreakTo := b, labelContinueTo := k\<rparr>)) c4"
    and "list_all stmtEmission pre" and "list_all stmtEmission post"
  shows "lowered ctx ((emit post c4)\<lparr>labelBreakTo := labelBreakTo ctx,
                                     labelContinueTo := labelContinueTo ctx\<rparr>)"
proof -
  let ?cx = "ctx\<lparr>labelBreakTo := b, labelContinueTo := k\<rparr>"
  have "lowered ?cx (newLabels j ?cx)" by (rule lowered_newLabels)
  moreover have "lowered (newLabels j ?cx) (emit pre (newLabels j ?cx))"
    using assms(2) by (rule lowered_emit)
  moreover have "lowered (emit pre (newLabels j ?cx)) c4"
    using assms(1) by (simp add: newLabels_targets)
  moreover have "lowered c4 (emit post c4)" using assms(3) by (rule lowered_emit)
  ultimately have "lowered ?cx (emit post c4)" by (blast intro: lowered_trans)
  then show ?thesis by (rule lowered_restore)
qed

lemma emitterLoop_InrE:
  assumes "emitterLoop K ctx Node = Inr c'"
  obtains lNode c4 where
    "ast_l Node = Some lNode"
    "emitterCode K
       (emit ((if ast_tag lNode = astCode then []
               else condCheck (ast_l Node) (operandLabel labelBreak (labelNo (Asm ctx) + 1)))
              @ [AsmLabel (operandLabel labelWhile (labelNo (Asm ctx)))])
          ((newLabels 3 ctx)\<lparr>labelBreakTo := operandLabel labelBreak (labelNo (Asm ctx) + 1),
                               labelContinueTo := operandLabel labelContinue (labelNo (Asm ctx) + 2)\<rparr>))
       (if ast_tag lNode = astCode then ast_l Node else ast_r Node) = Inr c4"
    "c' = (emit ([AsmComment '''', AsmLabel (labelContinueTo c4)]
                 @ condCheck (if ast_tag lNode = astCode then ast_r Node else ast_l Node)
                     (operandLabel labelBreak (labelNo (Asm ctx) + 1))
                 @ [AsmJump (operandLabel labelWhile (labelNo (Asm ctx))),
                    AsmLabel (operandLabel labelBreak (labelNo (Asm ctx) + 1))]) c4)
          \<lparr>labelBreakTo := labelBreakTo ctx, labelContinueTo := labelContinueTo ctx\<rparr>"
  using assms
  by (cases "ast_l Node")
     (auto simp: emitterLoop_nf Let_def condCheck_def split: sum.splits if_splits)

lemma emitterLoop_lowered:
  assumes code: "\<And>ctx p c'. p = ast_l n \<or> p = ast_r n \<Longrightarrow> emitterCode K ctx p = Inr c' \<Longrightarrow> lowered ctx c'"
    and run: "emitterLoop K ctx n = Inr c'"
  shows "lowered ctx c'"
  using run
proof (cases rule: emitterLoop_InrE)
  case (1 lNode c4)
  note body = code [OF _ 1(2)]
  show ?thesis unfolding 1(3)
    by (rule loop_lowered [OF body]) simp_all
qed

lemma emitterIter_InrE:
  assumes "emitterIter K ctx Node = Inr c'"
  obtains init cond it others c5 where
    "ast_children Node = init # cond # it # others"
    "ast_tag init = astDecl \<or> astIsValueTag K (ast_tag init) \<or> ast_tag init = astEmpty"
    "emitterCode K
       (emit ((if ast_tag init = astDecl then [EmitterDecl init, AsmComment '''']
               else if astIsValueTag K (ast_tag init)
               then [EmitterValue (Some init) requestVoid, AsmComment '''']
               else [])
              @ [AsmLabel (operandLabel labelFor (labelNo (Asm ctx)))]
              @ (if ast_tag cond \<noteq> astEmpty
                 then condCheck (Some cond) (operandLabel labelBreak (labelNo (Asm ctx) + 1))
                 else []))
          ((newLabels 3 ctx)\<lparr>labelBreakTo := operandLabel labelBreak (labelNo (Asm ctx) + 1),
                               labelContinueTo := operandLabel labelContinue (labelNo (Asm ctx) + 2)\<rparr>))
       (ast_l Node) = Inr c5"
    "c' = (emit ([AsmComment '''', AsmLabel (labelContinueTo c5)]
                 @ (if ast_tag it \<noteq> astEmpty
                    then [EmitterValue (Some it) requestVoid, AsmComment ''''] else [])
                 @ [AsmJump (operandLabel labelFor (labelNo (Asm ctx))),
                    AsmLabel (operandLabel labelBreak (labelNo (Asm ctx) + 1))]) c5)
          \<lparr>labelBreakTo := labelBreakTo ctx, labelContinueTo := labelContinueTo ctx\<rparr>"
proof -
  from assms obtain init cond it others where ch: "ast_children Node = init # cond # it # others"
    by (auto simp: emitterIter_nf Let_def split: list.splits sum.splits if_splits)
  from assms ch that [OF ch] show thesis
    by (simp add: emitterIter_nf Let_def condCheck_def split: sum.splits if_splits)
qed

lemma emitterIter_lowered:
  assumes code: "\<And>ctx c'. emitterCode K ctx (ast_l n) = Inr c' \<Longrightarrow> lowered ctx c'"
    and run: "emitterIter K ctx n = Inr c'"
  shows "lowered ctx c'"
  using run
proof (cases rule: emitterIter_InrE)
  case (1 init cond it others c5)
  note body = code [OF 1(3)]
  show ?thesis unfolding 1(4)
    by (rule loop_lowered [OF body]) simp_all
qed

lemma emitterLine_lowered: "emitterLine K ctx n = Inr c' \<Longrightarrow> lowered ctx c'"
proof (induction "size n" arbitrary: n ctx c' rule: less_induct)
  case less
  have line: "\<And>m ctx c'. size m < size n \<Longrightarrow> emitterLine K ctx m = Inr c' \<Longrightarrow> lowered ctx c'"
    using less.hyps by blast
  have block: "lowered ctx c'" if "size m \<le> size n" "emitterCode K ctx (Some m) = Inr c'" for m ctx c'
  proof (rule emitterCode_lowered [OF _ that(2)])
    fix c ctx c'
    assume "c \<in> set (ast_children m)" "emitterLine K ctx c = Inr c'"
    then show "lowered ctx c'" using line [of c ctx c'] ast_child_size [of c m] that(1) by simp
  qed
  have slot: "lowered ctx c'" if "p = ast_l n \<or> p = ast_r n" "emitterCode K ctx p = Inr c'" for p ctx c'
  proof -
    from that(2) obtain m where p: "p = Some m" by (auto elim: emitterCode_InrE)
    with that(1) have "size m < size n" using ast_l_size [of n m] ast_r_size [of n m] by auto
    then show ?thesis using block [of m ctx c'] that(2) p by simp
  qed
  let ?c1 = "emit [AsmComment ''''] ctx"
  have c1: "lowered ctx ?c1" by (simp add: lowered_emit)
  have "lowered ?c1 c'"
  proof -
    have "emitterBranch K ?c1 n = Inr c' \<or> emitterLoop K ?c1 n = Inr c'
        \<or> emitterIter K ?c1 n = Inr c' \<or> emitterCode K ?c1 (Some n) = Inr c'
        \<or> lowered ?c1 c'"
      using less.prems
      by (auto simp: emitterLine_nf Let_def emitterReturn_nf lowered_refl lowered_emit
          split: if_splits)
    then consider (branch) "emitterBranch K ?c1 n = Inr c'"
      | (loop) "emitterLoop K ?c1 n = Inr c'"
      | (iter) "emitterIter K ?c1 n = Inr c'"
      | (code) "emitterCode K ?c1 (Some n) = Inr c'"
      | (leaf) "lowered ?c1 c'"
      by blast
    then show ?thesis
    proof cases
      case branch
      then show ?thesis using slot by (rule emitterBranch_lowered [rotated])
    next
      case loop
      then show ?thesis using slot by (rule emitterLoop_lowered [rotated])
    next
      case iter
      have "\<And>ctx c'. emitterCode K ctx (ast_l n) = Inr c' \<Longrightarrow> lowered ctx c'"
        using slot by blast
      then show ?thesis using iter by (rule emitterIter_lowered)
    next
      case code
      then show ?thesis using block [of n] by simp
    next
      case leaf
      then show ?thesis .
    qed
  qed
  with c1 show ?case by (rule lowered_trans)
qed

lemma emitterLines_lowered': "emitterLines K ctx cs = Inr c' \<Longrightarrow> lowered ctx c'"
  by (rule emitterLines_lowered [OF emitterLine_lowered])

lemma emitterCode_lowered': "emitterCode K ctx p = Inr c' \<Longrightarrow> lowered ctx c'"
proof -
  assume run: "emitterCode K ctx p = Inr c'"
  then obtain Node where "p = Some Node" by (auto elim: emitterCode_InrE)
  with run show ?thesis by (auto intro: emitterCode_lowered [OF emitterLine_lowered])
qed

lemma emitterBranch_lowered': "emitterBranch K ctx n = Inr c' \<Longrightarrow> lowered ctx c'"
  by (rule emitterBranch_lowered [OF emitterCode_lowered'])

lemma emitterLoop_lowered': "emitterLoop K ctx n = Inr c' \<Longrightarrow> lowered ctx c'"
  by (rule emitterLoop_lowered [OF emitterCode_lowered'])

lemma emitterIter_lowered': "emitterIter K ctx n = Inr c' \<Longrightarrow> lowered ctx c'"
  by (rule emitterIter_lowered [OF emitterCode_lowered'])

lemma emittedByI: "emitted (Asm c') = emitted (Asm c) @ es \<Longrightarrow> emittedBy c c' = es"
  by (simp add: emittedBy_def)

lemma lowered_emitted:
  assumes "lowered c c'"
  shows "emitted (Asm c') = emitted (Asm c) @ emittedBy c c'"
    and "list_all stmtEmission (emittedBy c c')"
  using assms unfolding lowered_def emittedBy_def by auto

lemma emittedBy_emit_self [simp]: "emittedBy c (emit es c) = es"
  by (simp add: emittedBy_def)

lemma emitterLines_append:
  "emitterLines K ctx (xs @ ys) =
     (case emitterLines K ctx xs of Inl e \<Rightarrow> Inl e | Inr c1 \<Rightarrow> emitterLines K c1 ys)"
  by (induction xs arbitrary: ctx) (auto split: sum.splits)

lemma offsetsDown_append:
  "offsetsDown off (xs @ ys) = offsetsDown off xs @ offsetsDown (off - sum_list xs) ys"
  by (induction xs arbitrary: off) (auto simp: algebra_simps)

lemma scope_walk:
  "emitterScopeAssignOffsets K arc s off = (s', off') \<Longrightarrow>
     sym_tag s' = sym_tag s \<and> sym_dt s' = sym_dt s \<and> sym_label s' = sym_label s
     \<and> sym_offset s' = sym_offset s
     \<and> map sym_offset (symIds s') = offsetsDown off (map (symSize K arc) (symIds s))
     \<and> map sym_dt (symIds s') = map sym_dt (symIds s)
     \<and> off' = off - sum_list (map (symSize K arc) (symIds s))"
  "scopeChildren K arc cs off = (cs', off') \<Longrightarrow>
     map sym_tag cs' = map sym_tag cs \<and> map sym_dt cs' = map sym_dt cs
     \<and> map sym_label cs' = map sym_label cs
     \<and> map sym_offset (scopeIds cs') = offsetsDown off (map (symSize K arc) (scopeIds cs))
     \<and> map sym_dt (scopeIds cs') = map sym_dt (scopeIds cs)
     \<and> off' = off - sum_list (map (symSize K arc) (scopeIds cs))"
proof (induction K arc s off and K arc cs off arbitrary: s' off' and cs' off'
    rule: emitterScopeAssignOffsets_scopeChildren.induct)
  case (1 K arc t d cs off lab offset)
  then show ?case by (auto split: prod.splits)
next
  case (2 K arc offset)
  then show ?case by simp
next
  case (3 K arc Symbol rest offset)
  show ?case
  proof (cases "sym_tag Symbol = symScope")
    case True
    with "3.prems" obtain S1 o1 R o2 where
      a: "emitterScopeAssignOffsets K arc Symbol offset = (S1, o1)"
      and b: "scopeChildren K arc rest o1 = (R, o2)"
      and c: "cs' = S1 # R" "off' = o2"
      by (auto split: prod.splits)
    from "3.IH"(1) [OF True a] "3.IH"(2) [OF True a [symmetric] b] True c
    show ?thesis by (simp add: offsetsDown_append)
  next
    case False
    note notScope = this
    show ?thesis
    proof (cases "sym_tag Symbol = symId")
      case True
      obtain t d cs off lab where S: "Symbol = Sym t d cs off lab" by (cases Symbol)
      with "3.prems" notScope True obtain R o2 where
        b: "scopeChildren K arc rest (offset - typeGetSize K arc d) = (R, o2)"
        and c: "cs' = Sym t d cs (offset - typeGetSize K arc d) lab # R" "off' = o2"
        by (auto split: prod.splits)
      from "3.IH"(3) [OF notScope True S b] notScope True S c
      show ?thesis by (simp add: symSize_def)
    next
      case False
      with "3.prems" notScope obtain R o2 where
        b: "scopeChildren K arc rest offset = (R, o2)"
        and c: "cs' = Symbol # R" "off' = o2"
        by (auto split: prod.splits)
      from "3.IH"(4) [OF notScope False b] notScope False c
      show ?thesis by simp
    qed
  qed
qed

lemma offsetsDown_last: "last (off # offsetsDown off szs) = off - sum_list szs"
  by (induction szs arbitrary: off) auto

lemma offsetsDown_negative:
  "list_all (\<lambda>sz. 0 < sz) szs \<Longrightarrow> off \<le> 0 \<Longrightarrow> list_all (\<lambda>x. x < 0) (offsetsDown off szs)"
  by (induction szs arbitrary: off) auto

lemma assignParams_prefix:
  "assignParams K arc b cs =
     assignParams K arc b (takeWhile (\<lambda>s. sym_tag s = symParam) cs)
       @ dropWhile (\<lambda>s. sym_tag s = symParam) cs"
  by (induction cs arbitrary: b) (auto split: sym.splits)

lemma assignParams_params:
  "list_all (\<lambda>s. sym_tag s = symParam) ps \<Longrightarrow>
     map sym_offset (assignParams K arc b ps) = offsetsUp b (map (symSize K arc) ps)
     \<and> map sym_tag (assignParams K arc b ps) = map sym_tag ps
     \<and> map sym_dt (assignParams K arc b ps) = map sym_dt ps
     \<and> map sym_label (assignParams K arc b ps) = map sym_label ps"
  by (induction ps arbitrary: b) (auto simp: symSize_def split: sym.splits)

lemma assignParams_maps:
  "map sym_tag (assignParams K arc b cs) = map sym_tag cs"
  "map sym_dt (assignParams K arc b cs) = map sym_dt cs"
  "map sym_label (assignParams K arc b cs) = map sym_label cs"
  by (induction cs arbitrary: b; auto split: sym.splits)+

lemma scopeIds_assignParams: "scopeIds (assignParams K arc b cs) = scopeIds cs"
  by (induction cs arbitrary: b) (auto split: sym.splits)

lemma scopeChildren_params:
  "list_all (\<lambda>s. sym_tag s = symParam) ps \<Longrightarrow>
     scopeChildren K arc (ps @ rest) off =
       (case scopeChildren K arc rest off of (rest', off') \<Rightarrow> (ps @ rest', off'))"
  by (induction ps) (auto split: prod.splits)

lemma scopeChildren_other:
  "scopeChildren K arc cs off = (cs', off') \<Longrightarrow> i < length cs \<Longrightarrow>
     sym_tag (cs ! i) \<noteq> symScope \<Longrightarrow> sym_tag (cs ! i) \<noteq> symId \<Longrightarrow> cs' ! i = cs ! i"
proof (induction cs arbitrary: cs' off off' i)
  case Nil
  then show ?case by simp
next
  case (Cons a cs)
  then show ?case
    by (cases i) (auto split: if_splits prod.splits sym.splits)
qed

lemma scopeChildren_length: "scopeChildren K arc cs off = (cs', off') \<Longrightarrow> length cs' = length cs"
  using scope_walk(2) [of K arc cs off cs' off'] by (metis length_map)

lemma emitterFnAllocateStack_result:
  assumes "emitterFnAllocateStack K arc fn = (stacksize, fn')"
  obtains cs' off' where
    "scopeChildren K arc
       (assignParams K arc
          (if typeGetSize K arc (typeGetReturn K (sym_dt fn)) > wordsize arc
           then 3 * wordsize arc else 2 * wordsize arc)
          (sym_children fn)) 0 = (cs', off')"
    "fn' = Sym (sym_tag fn) (sym_dt fn) cs' (sym_offset fn) (sym_label fn)"
    "stacksize = - off'"
  using assms
  by (cases fn) (auto simp: emitterFnAllocateStack_def Let_def split: prod.splits if_splits)

section \<open>Frame layout: parameters\<close>

text \<open>
  Claim C2. \<^verbatim>\<open>emitterFnAllocateStack\<close> assigns offsets to the parameters that
  open the function symbol's children (the longest prefix of parameter-tagged
  children), in declaration order: the first gets \<open>2 * wordsize\<close>, or \<open>3 * wordsize\<close>
  when the size of the return type exceeds one word, and each next one the offset of
  the previous plus the previous one's type size. The tags and types of the children
  are unchanged, and a parameter-tagged child that comes after the first
  non-parameter child is left as it was.
\<close>

theorem C2_parameter_offsets:
  assumes "emitterFnAllocateStack K arc fn = (stacksize, fn')"
  shows "let params = takeWhile (\<lambda>s. sym_tag s = symParam) (sym_children fn);
             base = (if typeGetSize K arc (typeGetReturn K (sym_dt fn)) > wordsize arc
                     then 3 * wordsize arc else 2 * wordsize arc)
         in map sym_offset (take (length params) (sym_children fn'))
              = offsetsUp base (map (symSize K arc) params)
            \<and> map sym_tag (sym_children fn') = map sym_tag (sym_children fn)
            \<and> map sym_dt (sym_children fn') = map sym_dt (sym_children fn)
            \<and> (\<forall>i. length params \<le> i \<longrightarrow> i < length (sym_children fn) \<longrightarrow>
                   sym_tag (sym_children fn ! i) = symParam \<longrightarrow>
                   sym_children fn' ! i = sym_children fn ! i)"
proof -
  define params where "params = takeWhile (\<lambda>s. sym_tag s = symParam) (sym_children fn)"
  define rest where "rest = dropWhile (\<lambda>s. sym_tag s = symParam) (sym_children fn)"
  define base where "base = (if typeGetSize K arc (typeGetReturn K (sym_dt fn)) > wordsize arc
                     then 3 * wordsize arc else 2 * wordsize arc)"
  define P where "P = assignParams K arc base params"
  have cs: "sym_children fn = params @ rest" by (simp add: params_def rest_def)
  have allp: "list_all (\<lambda>s. sym_tag s = symParam) params"
    unfolding params_def list_all_iff by (auto dest: set_takeWhileD)
  have A: "assignParams K arc base (sym_children fn) = P @ rest"
    unfolding P_def params_def rest_def by (rule assignParams_prefix)
  note Pp = assignParams_params [OF allp, of K arc base, folded P_def]
  have lenP: "length P = length params" unfolding P_def by (rule assignParams_length)
  have allP: "list_all (\<lambda>s. sym_tag s = symParam) P"
    using Pp allp by (metis (mono_tags, lifting) list.pred_map list.pred_mono_strong comp_apply list_all_iff)
  from assms obtain cs' off' where
    run0: "scopeChildren K arc (assignParams K arc base (sym_children fn)) 0 = (cs', off')"
    and fn': "fn' = Sym (sym_tag fn) (sym_dt fn) cs' (sym_offset fn) (sym_label fn)"
    unfolding base_def by (rule emitterFnAllocateStack_result)
  from run0 have run: "scopeChildren K arc (P @ rest) 0 = (cs', off')" by (simp add: A)
  from run obtain rest' where cs': "cs' = P @ rest'"
    by (auto simp: scopeChildren_params [OF allP] split: prod.splits)
  have 1: "map sym_offset (take (length params) (sym_children fn')) = offsetsUp base (map (symSize K arc) params)"
    using Pp lenP by (simp add: fn' cs')
  from scope_walk(2) [OF run] have
    2: "map sym_tag (sym_children fn') = map sym_tag (sym_children fn)"
    and 3: "map sym_dt (sym_children fn') = map sym_dt (sym_children fn)"
    using Pp by (simp_all add: fn' cs)
  have 4: "sym_children fn' ! i = sym_children fn ! i"
    if "length params \<le> i" "i < length (sym_children fn)" "sym_tag (sym_children fn ! i) = symParam" for i
  proof -
    have "(P @ rest) ! i = sym_children fn ! i" using that(1) lenP by (simp add: cs nth_append)
    moreover have "cs' ! i = (P @ rest) ! i"
      using that lenP calculation by (intro scopeChildren_other [OF run]) (simp_all add: cs)
    ultimately show ?thesis by (simp add: fn')
  qed
  show ?thesis
    unfolding Let_def params_def [symmetric] base_def [symmetric] using 1 2 3 4 by blast
qed

theorem C2_parameter_offsets_witness:
  "emitterFnAllocateStack exampleK exampleArch scenarioA =
     (0, Sym symId 8
           [Sym symParam 4 [] 16 (Some ''a''), Sym symParam 4 [] 20 (Some ''b'')] 0 (Some ''f''))
   \<and> map sym_offset (take 2 (sym_children (snd (emitterFnAllocateStack exampleK exampleArch scenarioA))))
       = [16, 20]"
proof -
  have run: "emitterFnAllocateStack exampleK exampleArch scenarioA =
     (0, Sym symId 8
           [Sym symParam 4 [] 16 (Some ''a''), Sym symParam 4 [] 20 (Some ''b'')] 0 (Some ''f''))"
    by (simp add: emitterFnAllocateStack_def scenarioA_def exampleK_def exampleArch_def)
  show ?thesis
    using run C2_parameter_offsets [OF run]
    by (simp add: scenarioA_def exampleK_def exampleArch_def symSize_def)
qed

section \<open>Frame layout: automatic variables\<close>

text \<open>
  Claim C3. The automatic variables of a function are the identifier symbols met by
  the depth-first, declaration-order walk of its scope tree (\<open>scopeIds\<close>). One running
  offset starts at 0; at each variable it is first decremented by the variable's type
  size and then assigned, and a scope symbol is entered without taking a slot
  (\<open>offsetsDown\<close>). The frame size is the negation of the final running offset, which
  is the sum of the sizes. Every offset is negative when the sizes are positive, and
  the frame size is not negative when the sizes are not: the sizes come from
  \<^verbatim>\<open>typeGetSize\<close>, which is a parameter here, and the code subtracts them unchecked.
  Without these conditions on the sizes the two signs fail, as the examples after the
  theorem show.
\<close>

theorem C3_auto_variable_offsets:
  assumes "emitterFnAllocateStack K arc fn = (stacksize, fn')"
  shows "let sizes = map (symSize K arc) (scopeIds (sym_children fn));
             offsets = map sym_offset (scopeIds (sym_children fn'))
         in offsets = offsetsDown 0 sizes
            \<and> map sym_dt (scopeIds (sym_children fn')) = map sym_dt (scopeIds (sym_children fn))
            \<and> stacksize = - last (0 # offsets)
            \<and> stacksize = sum_list sizes
            \<and> (list_all (\<lambda>sz. 0 < sz) sizes \<longrightarrow> list_all (\<lambda>x. x < 0) offsets)
            \<and> (list_all (\<lambda>sz. 0 \<le> sz) sizes \<longrightarrow> 0 \<le> stacksize)"
proof -
  from assms obtain cs' off' where
    run: "scopeChildren K arc
       (assignParams K arc
          (if typeGetSize K arc (typeGetReturn K (sym_dt fn)) > wordsize arc
           then 3 * wordsize arc else 2 * wordsize arc)
          (sym_children fn)) 0 = (cs', off')"
    and fn': "fn' = Sym (sym_tag fn) (sym_dt fn) cs' (sym_offset fn) (sym_label fn)"
    and size: "stacksize = - off'"
    by (rule emitterFnAllocateStack_result)
  let ?sizes = "map (symSize K arc) (scopeIds (sym_children fn))"
  from scope_walk(2) [OF run] have
    offs: "map sym_offset (scopeIds cs') = offsetsDown 0 ?sizes"
    and dts: "map sym_dt (scopeIds cs') = map sym_dt (scopeIds (sym_children fn))"
    and fin: "off' = - sum_list ?sizes"
    by (simp_all add: scopeIds_assignParams)
  have last: "stacksize = - last (0 # map sym_offset (scopeIds cs'))"
    using offsetsDown_last [of 0 ?sizes] by (simp add: offs size fin)
  have neg: "list_all (\<lambda>x. x < 0) (offsetsDown 0 ?sizes)" if "list_all (\<lambda>sz. 0 < sz) ?sizes"
    using that by (rule offsetsDown_negative) simp
  have nonneg: "0 \<le> sum_list ?sizes" if "list_all (\<lambda>sz. 0 \<le> sz) ?sizes"
    using that by (intro sum_list_nonneg) (auto simp: list_all_iff)
  show ?thesis
    unfolding Let_def using offs dts last neg nonneg by (simp add: fn' size fin)
qed

theorem C3_auto_variable_offsets_witness:
  "emitterFnAllocateStack exampleK exampleArch scenarioB =
     (8, Sym symId 8
           [Sym symId 4 [] (- 4) (Some ''x''),
            Sym symScope 0 [Sym symId 4 [] (- 8) (Some ''y'')] 0 None] 0 (Some ''g''))
   \<and> map (symSize exampleK exampleArch) (scopeIds (sym_children scenarioB)) = [4, 4]
   \<and> map sym_offset (scopeIds (sym_children (snd (emitterFnAllocateStack exampleK exampleArch scenarioB))))
       = [- 4, - 8]
   \<and> fst (emitterFnAllocateStack exampleK exampleArch scenarioB) = 8"
proof -
  have run: "emitterFnAllocateStack exampleK exampleArch scenarioB =
     (8, Sym symId 8
           [Sym symId 4 [] (- 4) (Some ''x''),
            Sym symScope 0 [Sym symId 4 [] (- 8) (Some ''y'')] 0 None] 0 (Some ''g''))"
    by (simp add: emitterFnAllocateStack_def scenarioB_def exampleK_def exampleArch_def)
  show ?thesis
    using run C3_auto_variable_offsets [OF run]
    by (simp add: scenarioB_def exampleK_def exampleArch_def symSize_def)
qed

text \<open>
  The signs do not hold for every function symbol. The variable of size 0 is assigned
  the offset 0, which is not negative. With the sizes of scenario B negated, \<^verbatim>\<open>x\<close> is
  assigned 4, \<^verbatim>\<open>y\<close> is assigned 8, and the frame size is -8.
\<close>

theorem C3_auto_variable_offsets_counterexample:
  "emitterFnAllocateStack exampleK exampleArch zeroSized =
     (0, Sym symId 8 [Sym symId 0 [] 0 (Some ''z'')] 0 (Some ''h''))
   \<and> \<not> sym_offset (hd (scopeIds (sym_children
            (snd (emitterFnAllocateStack exampleK exampleArch zeroSized))))) < 0
   \<and> emitterFnAllocateStack negativeK exampleArch scenarioB =
       (- 8, Sym symId 8
               [Sym symId 4 [] 4 (Some ''x''),
                Sym symScope 0 [Sym symId 4 [] 8 (Some ''y'')] 0 None] 0 (Some ''g''))
   \<and> \<not> 0 \<le> fst (emitterFnAllocateStack negativeK exampleArch scenarioB)"
  by (simp add: emitterFnAllocateStack_def zeroSized_def scenarioB_def negativeK_def exampleK_def
      exampleArch_def)

lemma loopTargets_fields [simp]:
  "emitted (Asm (loopTargets c)) = emitted (Asm c)"
  "labelNo (Asm (loopTargets c)) = labelNo (Asm c) + 3"
  "filename (Asm (loopTargets c)) = filename (Asm c)"
  "arch (loopTargets c) = arch c"
  "labelReturnTo (loopTargets c) = labelReturnTo c"
  "labelBreakTo (loopTargets c) = operandLabel labelBreak (labelNo (Asm c) + 1)"
  "labelContinueTo (loopTargets c) = operandLabel labelContinue (labelNo (Asm c) + 2)"
  by (simp_all add: loopTargets_def)

lemma emittedBy_targets [simp]:
  "emittedBy c (c'\<lparr>labelBreakTo := b, labelContinueTo := k\<rparr>) = emittedBy c c'"
  by (simp add: emittedBy_def)

lemma emittedBy_after:
  assumes "lowered c1 c2" and "emitted (Asm c1) = emitted (Asm c) @ pre"
  shows "emittedBy c (emit post c2) = pre @ emittedBy c1 c2 @ post"
proof (rule emittedByI)
  show "emitted (Asm (emit post c2)) = emitted (Asm c) @ pre @ emittedBy c1 c2 @ post"
    using lowered_emitted(1) [OF assms(1)] assms(2) by simp
qed

lemma emitterLoop_eq:
  assumes "ast_l Node = Some lNode"
  shows "emitterLoop K ctx Node =
     (case emitterCode K
             (emit ((if ast_tag lNode = astCode then []
                     else condCheck (if ast_tag lNode = astCode then ast_r Node else ast_l Node)
                            (operandLabel labelBreak (labelNo (Asm ctx) + 1)))
                    @ [AsmLabel (operandLabel labelWhile (labelNo (Asm ctx)))])
                (loopTargets ctx))
             (if ast_tag lNode = astCode then ast_l Node else ast_r Node) of
        Inl e \<Rightarrow> Inl e
      | Inr c4 \<Rightarrow>
          Inr ((emit ([AsmComment '''', AsmLabel (labelContinueTo c4)]
                      @ condCheck (if ast_tag lNode = astCode then ast_r Node else ast_l Node)
                          (operandLabel labelBreak (labelNo (Asm ctx) + 1))
                      @ [AsmJump (operandLabel labelWhile (labelNo (Asm ctx))),
                         AsmLabel (operandLabel labelBreak (labelNo (Asm ctx) + 1))]) c4)
               \<lparr>labelBreakTo := labelBreakTo ctx, labelContinueTo := labelContinueTo ctx\<rparr>))"
  using assms
  by (simp add: emitterLoop_nf Let_def loopTargets_def condCheck_def cong: sum.case_cong)

section \<open>The shape of a lowered loop\<close>

text \<open>
  Claim C1. \<^verbatim>\<open>emitterLoop\<close> reads the kind of loop off the node: when the \<^verbatim>\<open>l\<close> slot
  holds a block-tagged node the loop is post-test, the block is the body and the \<^verbatim>\<open>r\<close>
  slot the condition; otherwise the loop is pre-test, \<^verbatim>\<open>l\<close> is the condition and \<^verbatim>\<open>r\<close>
  the body. Whatever the body's lowering gives, the loop gives: a failure is passed on,
  and when the body is lowered the loop is, and what it added to the sink is, in
  order: for a pre-test loop only, the condition check with its conditional jump to
  the exit label; the loop-top label; the body; (a comment marker and) the continue
  label; the condition check with its conditional jump to the exit label; the jump to
  the loop top; the exit label.
\<close>

theorem C1_loop_shape:
  fixes K ctx Node lNode
  defines "isDo \<equiv> ast_tag lNode = astCode"
    and "cond \<equiv> if ast_tag lNode = astCode then ast_r Node else ast_l Node"
    and "code \<equiv> if ast_tag lNode = astCode then ast_l Node else ast_r Node"
    and "LoopLabel \<equiv> operandLabel labelWhile (labelNo (Asm ctx))"
    and "EndLabel \<equiv> operandLabel labelBreak (labelNo (Asm ctx) + 1)"
    and "ContinueLabel \<equiv> operandLabel labelContinue (labelNo (Asm ctx) + 2)"
  defines "pre \<equiv> (if isDo then [] else condCheck cond EndLabel) @ [AsmLabel LoopLabel]"
  assumes l: "ast_l Node = Some lNode"
  shows "case emitterCode K (emit pre (loopTargets ctx)) code of
           Inl e \<Rightarrow> emitterLoop K ctx Node = Inl e
         | Inr c4 \<Rightarrow>
             (\<exists>c'. emitterLoop K ctx Node = Inr c'
                \<and> emittedBy ctx c' =
                    pre @ emittedBy (emit pre (loopTargets ctx)) c4
                    @ [AsmComment '''', AsmLabel ContinueLabel]
                    @ condCheck cond EndLabel
                    @ [AsmJump LoopLabel, AsmLabel EndLabel])"
proof -
  note eq = emitterLoop_eq [OF l, of K ctx, folded isDo_def cond_def code_def LoopLabel_def EndLabel_def,
      folded pre_def]
  show ?thesis
  proof (cases "emitterCode K (emit pre (loopTargets ctx)) code")
    case (Inl e)
    then show ?thesis by (simp add: eq)
  next
    case (Inr c4)
    note low = emitterCode_lowered' [OF Inr]
    have k: "labelContinueTo c4 = ContinueLabel"
      using lowered_fields(4) [OF low] by (simp add: ContinueLabel_def)
    have "emittedBy ctx (emit ([AsmComment '''', AsmLabel ContinueLabel] @ condCheck cond EndLabel
                     @ [AsmJump LoopLabel, AsmLabel EndLabel]) c4)
          = pre @ emittedBy (emit pre (loopTargets ctx)) c4
            @ ([AsmComment '''', AsmLabel ContinueLabel] @ condCheck cond EndLabel
                     @ [AsmJump LoopLabel, AsmLabel EndLabel])"
      by (rule emittedBy_after [OF low]) simp
    with Inr k show ?thesis by (simp add: eq)
  qed
qed

lemmas example_defs = exprC_def breakStmt_def breakBlock_def whileLoop_def doLoop_def
  exampleK_def exampleArch_def

lemma ctx0_fields [simp]:
  "emitted (Asm ctx0) = []" "labelNo (Asm ctx0) = 0"
  "labelBreakTo ctx0 = operandUndefined" "labelContinueTo ctx0 = operandUndefined"
  "labelReturnTo ctx0 = operandUndefined" "arch ctx0 = exampleArch"
  by (simp_all add: ctx0_def emitterInit_def asmInit_def)

lemma emittedBy_self [simp]: "emittedBy c c = []"
  by (simp add: emittedBy_def)

lemma emittedBy_emit:
  "length (emitted (Asm c)) \<le> length (emitted (Asm c')) \<Longrightarrow>
     emittedBy c (emit es c') = emittedBy c c' @ es"
  by (simp add: emittedBy_def)

theorem C1_loop_shape_witness:
  "ast_l whileLoop = Some exprC \<and> ast_l doLoop = Some breakBlock
   \<and> (\<exists>c'. emitterLoop exampleK ctx0 whileLoop = Inr c'
        \<and> emittedBy ctx0 c' =
            [EmitterValue (Some exprC) requestFlags,
             AsmBranch (operandValue (Some exprC) requestFlags) (operandLabel labelBreak 1),
             AsmLabel (operandLabel labelWhile 0),
             AsmEnter, AsmComment '''', AsmJump (operandLabel labelBreak 1), AsmLeave,
             AsmComment '''', AsmLabel (operandLabel labelContinue 2),
             EmitterValue (Some exprC) requestFlags,
             AsmBranch (operandValue (Some exprC) requestFlags) (operandLabel labelBreak 1),
             AsmJump (operandLabel labelWhile 0), AsmLabel (operandLabel labelBreak 1)])
   \<and> (\<exists>c'. emitterLoop exampleK ctx0 doLoop = Inr c'
        \<and> emittedBy ctx0 c' =
            [AsmLabel (operandLabel labelWhile 0),
             AsmEnter, AsmComment '''', AsmJump (operandLabel labelBreak 1), AsmLeave,
             AsmComment '''', AsmLabel (operandLabel labelContinue 2),
             EmitterValue (Some exprC) requestFlags,
             AsmBranch (operandValue (Some exprC) requestFlags) (operandLabel labelBreak 1),
             AsmJump (operandLabel labelWhile 0), AsmLabel (operandLabel labelBreak 1)])"
  using C1_loop_shape [of whileLoop exprC exampleK ctx0]
    C1_loop_shape [of doLoop breakBlock exampleK ctx0]
  by (simp add: example_defs condCheck_def emitterCode_nf emitterLine_nf emittedBy_emit numeral_2_eq_2)

lemma emitterBranch_eq:
  "emitterBranch K ctx Node =
     (case emitterCode K
             (emit (condCheck (firstChild Node) (operandLabel labelElse (labelNo (Asm ctx))))
                (newLabels 2 ctx))
             (ast_l Node) of
        Inl e \<Rightarrow> Inl e
      | Inr c3 \<Rightarrow>
          if ast_r Node \<noteq> None then
            (case emitterCode K
                    (emit [AsmComment '''',
                           AsmJump (operandLabel labelEndIf (labelNo (Asm ctx) + 1)),
                           AsmLabel (operandLabel labelElse (labelNo (Asm ctx)))] c3)
                    (ast_r Node) of
               Inl e \<Rightarrow> Inl e
             | Inr c7 \<Rightarrow>
                 Inr (emit [AsmLabel (operandLabel labelEndIf (labelNo (Asm ctx) + 1))] c7))
          else Inr (emit [AsmLabel (operandLabel labelElse (labelNo (Asm ctx)))] c3))"
  by (simp add: emitterBranch_nf Let_def condCheck_def cong: sum.case_cong if_cong)

section \<open>The shape of a lowered branch\<close>

text \<open>
  Claim C6. \<^verbatim>\<open>emitterBranch\<close> creates the else label and the end label, evaluates the
  condition (the first child) into the flags and emits the conditional jump to the
  else label, then lowers the then-branch (the \<^verbatim>\<open>l\<close> slot). With an else-branch (the
  \<^verbatim>\<open>r\<close> slot) it goes on with (a comment marker,) the jump to the end label, the else
  label, the else-branch and the end label; without one, with the else label alone. A
  failure of either branch is passed on. That the conditional jump is taken when the
  condition is false is the contract of \<^verbatim>\<open>asmBranch\<close>, which is recorded, not modelled.
\<close>

theorem C6_branch_shape:
  fixes K ctx Node
  defines "ElseLabel \<equiv> operandLabel labelElse (labelNo (Asm ctx))"
    and "EndLabel \<equiv> operandLabel labelEndIf (labelNo (Asm ctx) + 1)"
  defines "check \<equiv> condCheck (firstChild Node) ElseLabel"
  defines "thenCtx \<equiv> emit check (newLabels 2 ctx)"
  shows "case emitterCode K thenCtx (ast_l Node) of
           Inl e \<Rightarrow> emitterBranch K ctx Node = Inl e
         | Inr c3 \<Rightarrow>
             if ast_r Node \<noteq> None then
               (case emitterCode K
                       (emit [AsmComment '''', AsmJump EndLabel, AsmLabel ElseLabel] c3)
                       (ast_r Node) of
                  Inl e \<Rightarrow> emitterBranch K ctx Node = Inl e
                | Inr c7 \<Rightarrow>
                    (\<exists>c'. emitterBranch K ctx Node = Inr c'
                       \<and> emittedBy ctx c' =
                           check @ emittedBy thenCtx c3
                           @ [AsmComment '''', AsmJump EndLabel, AsmLabel ElseLabel]
                           @ emittedBy
                               (emit [AsmComment '''', AsmJump EndLabel, AsmLabel ElseLabel] c3) c7
                           @ [AsmLabel EndLabel]))
             else
               (\<exists>c'. emitterBranch K ctx Node = Inr c'
                  \<and> emittedBy ctx c' = check @ emittedBy thenCtx c3 @ [AsmLabel ElseLabel])"
proof -
  note eq = emitterBranch_eq [of K ctx Node, folded ElseLabel_def EndLabel_def, folded check_def,
      folded thenCtx_def]
  show ?thesis
  proof (cases "emitterCode K thenCtx (ast_l Node)")
    case (Inl e)
    then show ?thesis by (simp add: eq)
  next
    case c3: (Inr c3)
    note low3 = emitterCode_lowered' [OF c3]
    have e3: "emitted (Asm c3) = emitted (Asm ctx) @ check @ emittedBy thenCtx c3"
      using lowered_emitted(1) [OF low3] by (simp add: thenCtx_def)
    show ?thesis
    proof (cases "ast_r Node = None")
      case True
      have "emittedBy ctx (emit [AsmLabel ElseLabel] c3)
              = check @ emittedBy thenCtx c3 @ [AsmLabel ElseLabel]"
        by (rule emittedByI) (simp add: e3)
      with c3 True show ?thesis by (simp add: eq)
    next
      case False
      let ?c6 = "emit [AsmComment '''', AsmJump EndLabel, AsmLabel ElseLabel] c3"
      show ?thesis
      proof (cases "emitterCode K ?c6 (ast_r Node)")
        case (Inl e)
        with c3 False show ?thesis by (simp add: eq)
      next
        case c7: (Inr c7)
        note low7 = emitterCode_lowered' [OF c7]
        have "emittedBy ctx (emit [AsmLabel EndLabel] c7)
                = (check @ emittedBy thenCtx c3
                   @ [AsmComment '''', AsmJump EndLabel, AsmLabel ElseLabel])
                  @ emittedBy ?c6 c7 @ [AsmLabel EndLabel]"
          by (rule emittedBy_after [OF low7]) (simp add: e3)
        with c3 c7 False show ?thesis by (simp add: eq)
      qed
    qed
  qed
qed

theorem C6_branch_shape_witness:
  "(\<exists>c'. emitterBranch exampleK ctx0 ifElse = Inr c'
      \<and> emittedBy ctx0 c' =
          [EmitterValue (Some exprC) requestFlags,
           AsmBranch (operandValue (Some exprC) requestFlags) (operandLabel labelElse 0),
           AsmEnter, AsmComment '''', EmitterValue (Some exprA) requestVoid, AsmLeave,
           AsmComment '''', AsmJump (operandLabel labelEndIf 1), AsmLabel (operandLabel labelElse 0),
           AsmEnter, AsmComment '''', EmitterValue (Some exprB) requestVoid, AsmLeave,
           AsmLabel (operandLabel labelEndIf 1)])
   \<and> (\<exists>c'. emitterBranch exampleK ctx0 ifOnly = Inr c'
      \<and> emittedBy ctx0 c' =
          [EmitterValue (Some exprC) requestFlags,
           AsmBranch (operandValue (Some exprC) requestFlags) (operandLabel labelElse 0),
           AsmEnter, AsmComment '''', EmitterValue (Some exprA) requestVoid, AsmLeave,
           AsmLabel (operandLabel labelElse 0)])"
  using C6_branch_shape [of exampleK ctx0 ifElse] C6_branch_shape [of exampleK ctx0 ifOnly]
  by (simp add: example_defs exprA_def exprB_def ifElse_def ifOnly_def firstChild_def
      condCheck_def emitterCode_nf emitterLine_nf emittedBy_emit)

lemma emitterIter_eq:
  assumes "ast_children Node = init # cond # it # others"
    and "ast_tag init = astDecl \<or> astIsValueTag K (ast_tag init) \<or> ast_tag init = astEmpty"
  shows "emitterIter K ctx Node =
     (case emitterCode K
             (emit ((if ast_tag init = astDecl then [EmitterDecl init, AsmComment '''']
                     else if astIsValueTag K (ast_tag init)
                     then [EmitterValue (Some init) requestVoid, AsmComment '''']
                     else [])
                    @ [AsmLabel (operandLabel labelFor (labelNo (Asm ctx)))]
                    @ (if ast_tag cond \<noteq> astEmpty
                       then condCheck (Some cond) (operandLabel labelBreak (labelNo (Asm ctx) + 1))
                       else []))
                (loopTargets ctx))
             (ast_l Node) of
        Inl e \<Rightarrow> Inl e
      | Inr c5 \<Rightarrow>
          Inr ((emit ([AsmComment '''', AsmLabel (labelContinueTo c5)]
                      @ (if ast_tag it \<noteq> astEmpty
                         then [EmitterValue (Some it) requestVoid, AsmComment ''''] else [])
                      @ [AsmJump (operandLabel labelFor (labelNo (Asm ctx))),
                         AsmLabel (operandLabel labelBreak (labelNo (Asm ctx) + 1))]) c5)
               \<lparr>labelBreakTo := labelBreakTo ctx, labelContinueTo := labelContinueTo ctx\<rparr>))"
  using assms
  by (auto simp add: emitterIter_nf Let_def loopTargets_def condCheck_def cong: sum.case_cong)

section \<open>The shape of a lowered counted iteration\<close>

text \<open>
  Claim C7. \<^verbatim>\<open>emitterIter\<close> takes the first three children of the node as init,
  condition and step, and the \<^verbatim>\<open>l\<close> slot as body. For an init that is a declaration, an
  expression or empty, and whatever the body's lowering gives (a failure is passed on),
  what it adds to the sink is, in order: the init (the declaration, or the expression
  with its result discarded, or nothing); the loop-top label; the condition check
  with its conditional jump to the exit label, only if the condition is not empty;
  the body; (a comment marker and) the continue label; the step with its result
  discarded, only if it is not empty; the jump to the loop top; the exit label.
\<close>

theorem C7_iter_shape:
  fixes K ctx Node init cond it others
  defines "LoopLabel \<equiv> operandLabel labelFor (labelNo (Asm ctx))"
    and "EndLabel \<equiv> operandLabel labelBreak (labelNo (Asm ctx) + 1)"
    and "ContinueLabel \<equiv> operandLabel labelContinue (labelNo (Asm ctx) + 2)"
  defines "initPart \<equiv>
             (if ast_tag init = astDecl then [EmitterDecl init, AsmComment '''']
              else if astIsValueTag K (ast_tag init)
              then [EmitterValue (Some init) requestVoid, AsmComment '''']
              else [])"
    and "condPart \<equiv> (if ast_tag cond \<noteq> astEmpty then condCheck (Some cond) EndLabel else [])"
    and "stepPart \<equiv>
             (if ast_tag it \<noteq> astEmpty
              then [EmitterValue (Some it) requestVoid, AsmComment ''''] else [])"
  defines "bodyCtx \<equiv> emit (initPart @ [AsmLabel LoopLabel] @ condPart) (loopTargets ctx)"
  assumes ch: "ast_children Node = init # cond # it # others"
    and ok: "ast_tag init = astDecl \<or> astIsValueTag K (ast_tag init) \<or> ast_tag init = astEmpty"
  shows "case emitterCode K bodyCtx (ast_l Node) of
           Inl e \<Rightarrow> emitterIter K ctx Node = Inl e
         | Inr c5 \<Rightarrow>
             (\<exists>c'. emitterIter K ctx Node = Inr c'
                \<and> emittedBy ctx c' =
                    initPart @ [AsmLabel LoopLabel] @ condPart
                    @ emittedBy bodyCtx c5
                    @ [AsmComment '''', AsmLabel ContinueLabel]
                    @ stepPart
                    @ [AsmJump LoopLabel, AsmLabel EndLabel])"
proof -
  note eq = emitterIter_eq [OF ch ok, of ctx, folded LoopLabel_def EndLabel_def,
      folded initPart_def condPart_def stepPart_def, folded bodyCtx_def]
  show ?thesis
  proof (cases "emitterCode K bodyCtx (ast_l Node)")
    case (Inl e)
    then show ?thesis by (simp add: eq)
  next
    case (Inr c5)
    note low = emitterCode_lowered' [OF Inr]
    have k: "labelContinueTo c5 = ContinueLabel"
      using lowered_fields(4) [OF low] by (simp add: ContinueLabel_def bodyCtx_def)
    have "emittedBy ctx (emit ([AsmComment '''', AsmLabel ContinueLabel] @ stepPart
                     @ [AsmJump LoopLabel, AsmLabel EndLabel]) c5)
          = (initPart @ [AsmLabel LoopLabel] @ condPart) @ emittedBy bodyCtx c5
            @ ([AsmComment '''', AsmLabel ContinueLabel] @ stepPart
                     @ [AsmJump LoopLabel, AsmLabel EndLabel])"
      by (rule emittedBy_after [OF low]) (simp add: bodyCtx_def)
    with Inr k show ?thesis by (simp add: eq)
  qed
qed

lemma emittedBy_newLabels [simp]: "emittedBy c (newLabels k c') = emittedBy c c'"
  by (simp add: emittedBy_def)

theorem C7_iter_shape_witness:
  "ast_children forEver = [emptyStmt, emptyStmt, emptyStmt]
   \<and> ast_tag emptyStmt = astEmpty
   \<and> (\<exists>c'. emitterIter exampleK ctx0 forEver = Inr c'
        \<and> emittedBy ctx0 c' =
            [AsmLabel (operandLabel labelFor 0),
             AsmEnter, AsmComment '''',
             EmitterValue (Some exprDone) requestFlags,
             AsmBranch (operandValue (Some exprDone) requestFlags) (operandLabel labelElse 3),
             AsmEnter, AsmComment '''', AsmJump (operandLabel labelBreak 1), AsmLeave,
             AsmLabel (operandLabel labelElse 3),
             AsmLeave,
             AsmComment '''', AsmLabel (operandLabel labelContinue 2),
             AsmJump (operandLabel labelFor 0), AsmLabel (operandLabel labelBreak 1)])"
  using C7_iter_shape [of forEver emptyStmt emptyStmt emptyStmt "[]" exampleK ctx0]
  by (simp add: example_defs emptyStmt_def exprDone_def forEver_def firstChild_def
      condCheck_def emitterCode_nf emitterLine_nf emitterBranch_nf Let_def emittedBy_emit
      numeral_2_eq_2 numeral_3_eq_3)

lemma emitterLines_split:
  assumes "emitterLines K c (pre @ s # post) = Inr c4"
  obtains c1 c2 where "emitterLines K c pre = Inr c1" "emitterLine K c1 s = Inr c2"
    "emitterLines K c2 post = Inr c4"
  using assms by (auto simp: emitterLines_append split: sum.splits)

lemma block_statement:
  assumes "emitterCode K c (Some body) = Inr c4" and "ast_children body = pre @ s # post"
  obtains c1 where "emitterLines K (emit [AsmEnter] c) pre = Inr c1"
    "labelBreakTo c1 = labelBreakTo c" "labelContinueTo c1 = labelContinueTo c"
    "labelReturnTo c1 = labelReturnTo c" "labelNo (Asm c) \<le> labelNo (Asm c1)"
    "\<exists>c2. emitterLine K c1 s = Inr c2"
proof -
  from assms(1) obtain c3 where "emitterLines K (emit [AsmEnter] c) (ast_children body) = Inr c3"
    by (auto elim: emitterCode_InrE)
  then obtain c1 c2 where 1: "emitterLines K (emit [AsmEnter] c) pre = Inr c1"
    and 2: "emitterLine K c1 s = Inr c2"
    unfolding assms(2) by (rule emitterLines_split)
  from lowered_fields [OF emitterLines_lowered' [OF 1]] 1 2 that show thesis by simp
qed



section \<open>Break and continue targets across nested loops\<close>



lemma no_epilogue: "list_all stmtEmission es \<Longrightarrow> filter isFnEpilogue es = []"
proof (induction es)
  case Nil
  then show ?case by simp
next
  case (Cons e es)
  then show ?case by (cases e) simp_all
qed

lemma emitterFnImpl_eq:
  assumes "ast_symbol Node = Some p" and "syms p = Some s"
  shows "emitterFnImpl K (ctx, syms) Node =
     (case emitterCode K
             (emit [AsmComment '''',
                    AsmFnPrologue
                      (sym_label (snd (emitterFnAllocateStack K (arch ctx)
                         (if sym_label s = None then symbolMangler (arch ctx) s else s))))
                      (fst (emitterFnAllocateStack K (arch ctx)
                         (if sym_label s = None then symbolMangler (arch ctx) s else s)))]
                ((newLabels 1 ctx)\<lparr>labelReturnTo := operandLabel labelReturn (labelNo (Asm ctx))\<rparr>))
             (ast_r Node) of
        Inl e \<Rightarrow> Inl e
      | Inr c4 \<Rightarrow>
          Inr (emit [AsmFnEpilogue (operandLabel labelReturn (labelNo (Asm ctx)))] c4,
               syms(p := Some (snd (emitterFnAllocateStack K (arch ctx)
                         (if sym_label s = None then symbolMangler (arch ctx) s else s))))))"
  using assms
  by (simp add: emitterFnImpl_def Let_def prims asmFnPrologue_def asmFnEpilogue_def
      emit_def newLabels_def split_beta cong: sum.case_cong)

lemma return_line:
  "ast_tag n = astReturn \<Longrightarrow>
     emitterLine K c n =
       Inr (emit ([AsmComment '''']
                  @ (if ast_r n \<noteq> None then [EmitterValue (ast_r n) requestReturn] else [])
                  @ [AsmJump (labelReturnTo c)]) c)"
  by (simp add: emitterLine_nf emitterReturn_nf emit_emit)

section \<open>One epilogue per function\<close>

text \<open>
  Claim C5. \<^verbatim>\<open>emitterFnImpl\<close> creates the return label, installs it as the return-to
  target, emits the prologue, lowers the body (the \<^verbatim>\<open>r\<close> slot) and emits the epilogue
  at the return label. Whatever the body holds, what the function adds to the sink is
  the prologue, the body's entries, none of which is an epilogue, and the one
  epilogue. A return statement is lowered, in any context, as its value (if the \<^verbatim>\<open>r\<close>
  slot holds one) evaluated with the return-slot request and the jump to the current
  return-to target; no statement changes that target, so in a block it is the
  return-to target of the block whatever was lowered before the return.
\<close>

theorem C5_single_epilogue:
  fixes K ctx syms Node p s
  defines "s1 \<equiv> if sym_label s = None then symbolMangler (arch ctx) s else s"
  defines "stacksize \<equiv> fst (emitterFnAllocateStack K (arch ctx) s1)"
    and "s2 \<equiv> snd (emitterFnAllocateStack K (arch ctx) s1)"
    and "EndLabel \<equiv> operandLabel labelReturn (labelNo (Asm ctx))"
  defines "bodyCtx \<equiv> emit [AsmComment '''', AsmFnPrologue (sym_label s2) stacksize]
                        ((newLabels 1 ctx)\<lparr>labelReturnTo := EndLabel\<rparr>)"
  assumes sym: "ast_symbol Node = Some p" "syms p = Some s"
  shows "(case emitterCode K bodyCtx (ast_r Node) of
            Inl e \<Rightarrow> emitterFnImpl K (ctx, syms) Node = Inl e
          | Inr c4 \<Rightarrow>
              (\<exists>c' syms'. emitterFnImpl K (ctx, syms) Node = Inr (c', syms')
                 \<and> emittedBy ctx c' =
                     [AsmComment '''', AsmFnPrologue (sym_label s2) stacksize]
                     @ emittedBy bodyCtx c4 @ [AsmFnEpilogue EndLabel]
                 \<and> filter isFnEpilogue (emittedBy bodyCtx c4) = []
                 \<and> filter isFnEpilogue (emittedBy ctx c') = [AsmFnEpilogue EndLabel]
                 \<and> labelReturnTo bodyCtx = EndLabel \<and> labelReturnTo c4 = EndLabel))
         \<and> (ast_tag n = astReturn \<longrightarrow>
              emitterLine K c n =
                Inr (emit ([AsmComment '''']
                           @ (if ast_r n \<noteq> None then [EmitterValue (ast_r n) requestReturn] else [])
                           @ [AsmJump (labelReturnTo c)]) c))
         \<and> (emitterLine K c n = Inr c2 \<longrightarrow> labelReturnTo c2 = labelReturnTo c)
         \<and> (emitterCode K c (Some body) = Inr c2 \<and> ast_children body = pre @ n # post \<longrightarrow>
              (\<exists>c1. emitterLines K (emit [AsmEnter] c) pre = Inr c1
                 \<and> labelReturnTo c1 = labelReturnTo c))"
proof -
  note eq = emitterFnImpl_eq [of Node p syms s K ctx, OF sym, folded s1_def,
      folded stacksize_def s2_def EndLabel_def, folded bodyCtx_def]
  have fn: "case emitterCode K bodyCtx (ast_r Node) of
            Inl e \<Rightarrow> emitterFnImpl K (ctx, syms) Node = Inl e
          | Inr c4 \<Rightarrow>
              (\<exists>c' syms'. emitterFnImpl K (ctx, syms) Node = Inr (c', syms')
                 \<and> emittedBy ctx c' =
                     [AsmComment '''', AsmFnPrologue (sym_label s2) stacksize]
                     @ emittedBy bodyCtx c4 @ [AsmFnEpilogue EndLabel]
                 \<and> filter isFnEpilogue (emittedBy bodyCtx c4) = []
                 \<and> filter isFnEpilogue (emittedBy ctx c') = [AsmFnEpilogue EndLabel]
                 \<and> labelReturnTo bodyCtx = EndLabel \<and> labelReturnTo c4 = EndLabel)"
  proof (cases "emitterCode K bodyCtx (ast_r Node)")
    case (Inl e)
    then show ?thesis by (simp add: eq)
  next
    case (Inr c4)
    note low = emitterCode_lowered' [OF Inr]
    have t: "labelReturnTo bodyCtx = EndLabel" by (simp add: bodyCtx_def)
    have r: "labelReturnTo c4 = EndLabel" using lowered_fields(2) [OF low] t by simp
    have none: "filter isFnEpilogue (emittedBy bodyCtx c4) = []"
      using lowered_emitted(2) [OF low] by (rule no_epilogue)
    have tr: "emittedBy ctx (emit [AsmFnEpilogue EndLabel] c4)
          = [AsmComment '''', AsmFnPrologue (sym_label s2) stacksize]
            @ emittedBy bodyCtx c4 @ [AsmFnEpilogue EndLabel]"
      by (rule emittedBy_after [OF low]) (simp add: bodyCtx_def)
    from Inr t r none tr show ?thesis by (simp add: eq)
  qed
  have ret: "labelReturnTo c2 = labelReturnTo c" if "emitterLine K c n = Inr c2"
    using lowered_fields(2) [OF emitterLine_lowered [OF that]] .
  have blk: "\<exists>c1. emitterLines K (emit [AsmEnter] c) pre = Inr c1 \<and> labelReturnTo c1 = labelReturnTo c"
    if "emitterCode K c (Some body) = Inr c2 \<and> ast_children body = pre @ n # post"
    using that by (auto elim: block_statement)
  from fn ret blk return_line [of n K c] show ?thesis by blast
qed

theorem C5_single_epilogue_witness:
  "ast_symbol twoReturns = Some 0 \<and> exampleSyms 0 = Some scenarioA
   \<and> (\<exists>c' syms'. emitterFnImpl exampleK (ctx0, exampleSyms) twoReturns = Inr (c', syms')
        \<and> emittedBy ctx0 c' =
            [AsmComment '''', AsmFnPrologue (Some ''f'') 0,
             AsmEnter,
             AsmComment '''', EmitterValue (Some exprC) requestReturn,
             AsmJump (operandLabel labelReturn 0),
             AsmComment '''', AsmJump (operandLabel labelReturn 0),
             AsmLeave,
             AsmFnEpilogue (operandLabel labelReturn 0)]
        \<and> filter isFnEpilogue (emittedBy ctx0 c') = [AsmFnEpilogue (operandLabel labelReturn 0)])"
  using C5_single_epilogue [where Node = twoReturns and p = 0 and syms = exampleSyms
      and s = scenarioA and K = exampleK and ctx = ctx0]
  by (simp add: twoReturns_def exampleSyms_def example_defs scenarioA_def
      emitterFnAllocateStack_def emitterCode_nf emitterLine_nf emitterReturn_nf emittedBy_emit)

lemma emitterFnAllocateStack_label:
  "sym_label (snd (emitterFnAllocateStack K arc fn)) = sym_label fn"
  by (rule emitterFnAllocateStack_result [of K arc fn "fst (emitterFnAllocateStack K arc fn)"
        "snd (emitterFnAllocateStack K arc fn)"]) simp_all

lemma emitterFnImpl_InrE:
  assumes "emitterFnImpl K (ctx, syms) Node = Inr (c1, syms1)"
    and "ast_symbol Node = Some p" and "syms p = Some s"
  obtains "syms1 = syms(p := Some (snd (emitterFnAllocateStack K (arch ctx)
              (if sym_label s = None then symbolMangler (arch ctx) s else s))))"
    and "arch c1 = arch ctx"
proof -
  let ?s1 = "if sym_label s = None then symbolMangler (arch ctx) s else s"
  let ?b = "emit [AsmComment '''',
                  AsmFnPrologue (sym_label (snd (emitterFnAllocateStack K (arch ctx) ?s1)))
                    (fst (emitterFnAllocateStack K (arch ctx) ?s1))]
              ((newLabels 1 ctx)\<lparr>labelReturnTo := operandLabel labelReturn (labelNo (Asm ctx))\<rparr>)"
  note eq = emitterFnImpl_eq [of Node p syms s K ctx, OF assms(2,3)]
  from assms(1) obtain c4 where body: "emitterCode K ?b (ast_r Node) = Inr c4"
    and c1: "c1 = emit [AsmFnEpilogue (operandLabel labelReturn (labelNo (Asm ctx)))] c4"
    and st: "syms1 = syms(p := Some (snd (emitterFnAllocateStack K (arch ctx) ?s1)))"
    unfolding eq by (auto split: sum.splits)
  have "arch c4 = arch ?b" by (rule lowered_fields(1) [OF emitterCode_lowered' [OF body]])
  with c1 have "arch c1 = arch ctx" by (simp add: emit_def newLabels_def)
  with st show ?thesis by (rule that)
qed

section \<open>The label of a function is assigned once\<close>

text \<open>
  Claim C9. Let \<^verbatim>\<open>emitterFnImpl\<close> lower a function-implementation node whose symbol is
  \<open>s\<close>, and return. It has written the symbol back with its frame laid out, and that is
  the only change to the symbol store. When the label of \<open>s\<close> was set, the mangling rule
  of the architecture was not applied: the symbol written back is the frame layout of
  \<open>s\<close> itself, with the label of \<open>s\<close>. When the label was unset, the symbol written back
  is the frame layout of the mangled symbol, with the label the mangling rule gave it.
  Lowering the same node a second time, in the context and store the first lowering
  left, with the label now set, writes back a symbol with the same label, to which the
  mangling rule was again not applied.
\<close>

theorem C9_label_assigned_once:
  assumes sym: "ast_symbol Node = Some p" "syms p = Some s"
    and first: "emitterFnImpl K (ctx, syms) Node = Inr (c1, syms1)"
  shows "\<exists>t. syms1 = syms(p := Some t)
           \<and> sym_label t = (if sym_label s = None then sym_label (symbolMangler (arch ctx) s)
                            else sym_label s)
           \<and> (sym_label s \<noteq> None \<longrightarrow> t = snd (emitterFnAllocateStack K (arch ctx) s))
           \<and> (sym_label s = None \<longrightarrow>
                t = snd (emitterFnAllocateStack K (arch ctx) (symbolMangler (arch ctx) s)))
           \<and> (\<forall>c2 syms2.
                sym_label t \<noteq> None \<and> emitterFnImpl K (c1, syms1) Node = Inr (c2, syms2) \<longrightarrow>
                  (\<exists>t'. syms2 = syms(p := Some t') \<and> sym_label t' = sym_label t
                     \<and> t' = snd (emitterFnAllocateStack K (arch ctx) t)))"
proof -
  define t where "t = snd (emitterFnAllocateStack K (arch ctx)
                        (if sym_label s = None then symbolMangler (arch ctx) s else s))"
  from first sym have st: "syms1 = syms(p := Some t)" and ar: "arch c1 = arch ctx"
    unfolding t_def by (auto elim: emitterFnImpl_InrE)
  have lab: "sym_label t = (if sym_label s = None then sym_label (symbolMangler (arch ctx) s)
                            else sym_label s)"
    by (simp add: t_def emitterFnAllocateStack_label)
  have again: "\<exists>t'. syms2 = syms(p := Some t') \<and> sym_label t' = sym_label t
                 \<and> t' = snd (emitterFnAllocateStack K (arch ctx) t)"
    if set: "sym_label t \<noteq> None" and run: "emitterFnImpl K (c1, syms1) Node = Inr (c2, syms2)"
    for c2 syms2
  proof -
    have at: "syms1 p = Some t" by (simp add: st)
    from run sym(1) at
    have "syms2 = syms1(p := Some (snd (emitterFnAllocateStack K (arch c1)
                     (if sym_label t = None then symbolMangler (arch c1) t else t))))"
      by (rule emitterFnImpl_InrE)
    moreover from set have "(if sym_label t = None then symbolMangler (arch c1) t else t) = t"
      by auto
    ultimately have "syms2 = syms(p := Some (snd (emitterFnAllocateStack K (arch ctx) t)))"
      by (simp add: ar st)
    then show ?thesis by (simp add: emitterFnAllocateStack_label)
  qed
  have unmangled: "sym_label s \<noteq> None \<longrightarrow> t = snd (emitterFnAllocateStack K (arch ctx) s)"
    by (auto simp: t_def)
  have mangled: "sym_label s = None \<longrightarrow>
      t = snd (emitterFnAllocateStack K (arch ctx) (symbolMangler (arch ctx) s))"
    by (simp add: t_def)
  from again
  have twice: "\<forall>c2 syms2.
      sym_label t \<noteq> None \<and> emitterFnImpl K (c1, syms1) Node = Inr (c2, syms2) \<longrightarrow>
        (\<exists>t'. syms2 = syms(p := Some t') \<and> sym_label t' = sym_label t
           \<and> t' = snd (emitterFnAllocateStack K (arch ctx) t))"
    by blast
  show ?thesis by (intro exI [of _ t] conjI st lab unmangled mangled twice)
qed

theorem C9_label_assigned_once_witness:
  "ast_symbol twoReturns = Some 0 \<and> unlabelledSyms 0 = Some unlabelled
   \<and> sym_label unlabelled = None
   \<and> (\<exists>c1 syms1 c2 syms2 t t'.
        emitterFnImpl exampleK (ctxMangling, unlabelledSyms) twoReturns = Inr (c1, syms1)
      \<and> emitterFnImpl exampleK (c1, syms1) twoReturns = Inr (c2, syms2)
      \<and> syms1 0 = Some t \<and> sym_label t = Some ''_f''
      \<and> syms2 0 = Some t' \<and> sym_label t' = Some ''_f'')"
proof -
  let ?t = "Sym symId 8 [Sym symParam 4 [] 16 (Some ''a'')] 0 (Some ''_f'')"
  let ?c1 = "emit [AsmComment '''', AsmFnPrologue (Some ''_f'') 0,
                   AsmEnter,
                   AsmComment '''', EmitterValue (Some exprC) requestReturn,
                   AsmJump (operandLabel labelReturn 0),
                   AsmComment '''', AsmJump (operandLabel labelReturn 0),
                   AsmLeave,
                   AsmFnEpilogue (operandLabel labelReturn 0)]
               ((newLabels 1 ctxMangling)\<lparr>labelReturnTo := operandLabel labelReturn 0\<rparr>)"
  have sym: "ast_symbol twoReturns = Some 0" "unlabelledSyms 0 = Some unlabelled"
    "sym_label unlabelled = None"
    by (simp_all add: twoReturns_def unlabelledSyms_def unlabelled_def)
  have first: "emitterFnImpl exampleK (ctxMangling, unlabelledSyms) twoReturns
                 = Inr (?c1, unlabelledSyms(0 := Some ?t))"
    unfolding emitterFnImpl_eq [of twoReturns 0 unlabelledSyms unlabelled, OF sym(1,2)]
    by (simp add: twoReturns_def unlabelled_def
        ctxMangling_def example_defs underscoreMangler_def emitterInit_def asmInit_def
        emitterFnAllocateStack_def emitterCode_nf emitterLine_nf emitterReturn_nf
        emit_def newLabels_def)
  have at: "(unlabelledSyms(0 := Some ?t)) 0 = Some ?t" by simp
  have second: "\<exists>c2. emitterFnImpl exampleK (?c1, unlabelledSyms(0 := Some ?t)) twoReturns
                 = Inr (c2, unlabelledSyms(0 := Some ?t))"
    unfolding emitterFnImpl_eq [of twoReturns 0 "unlabelledSyms(0 := Some ?t)" ?t, OF sym(1) at]
    by (simp add: twoReturns_def
        ctxMangling_def example_defs underscoreMangler_def emitterInit_def asmInit_def
        emitterFnAllocateStack_def emitterCode_nf emitterLine_nf emitterReturn_nf
        emit_def newLabels_def)
  from second obtain c2 where
    second: "emitterFnImpl exampleK (?c1, unlabelledSyms(0 := Some ?t)) twoReturns
               = Inr (c2, unlabelledSyms(0 := Some ?t))" ..
  have "\<exists>c1 syms1 c2 syms2 t t'.
        emitterFnImpl exampleK (ctxMangling, unlabelledSyms) twoReturns = Inr (c1, syms1)
      \<and> emitterFnImpl exampleK (c1, syms1) twoReturns = Inr (c2, syms2)
      \<and> syms1 0 = Some t \<and> sym_label t = Some ''_f''
      \<and> syms2 0 = Some t' \<and> sym_label t' = Some ''_f''"
    apply (rule exI [of _ ?c1], rule exI [of _ "unlabelledSyms(0 := Some ?t)"])
    apply (rule exI [of _ c2], rule exI [of _ "unlabelledSyms(0 := Some ?t)"])
    apply (rule exI [of _ ?t], rule exI [of _ ?t])
    using first second by simp
  with C9_label_assigned_once [OF sym(1,2) first] sym
  show ?thesis by simp
qed

lemma emitterModuleLoop_append:
  "emitterModuleLoop K st (xs @ ys) =
     (case emitterModuleLoop K st xs of Inl e \<Rightarrow> Inl e | Inr st1 \<Rightarrow> emitterModuleLoop K st1 ys)"
  by (induction xs arbitrary: st) (simp_all split: sum.splits)

section \<open>Tags that no dispatch handles\<close>

text \<open>
  Claim C8. A statement whose tag has no branch in \<^verbatim>\<open>emitterLine\<close> ends the lowering with
  the failure that names \<^verbatim>\<open>emitterLine\<close> and the tag, after the comment that opens the
  line; a top-level node whose tag has no branch in \<^verbatim>\<open>emitterModule\<close> ends it with the
  failure that names \<^verbatim>\<open>emitterModule\<close> and the tag, with nothing added to the sink. A
  failure is passed on unchanged, with the sink as it stood, by everything around it:
  the statements \<open>post\<close> and the top-level nodes \<open>mpost\<close> that follow are not lowered;
  a block, a block statement, a branch (from either of its blocks), a loop, a counted
  iteration and a function implementation return the failure of their body; the
  module loop returns that of a function implementation or of an included module;
  \<^verbatim>\<open>emitterModule\<close> returns that of its loop; and \<^verbatim>\<open>emitter\<close> returns that of the module,
  without the file epilogue.
\<close>

theorem C8_unhandled_tag_fatal:
  fixes K :: collab and c :: emitterCtx and s :: ast
    and ctx :: emitterCtx and syms :: symStore and sy :: sym
    and lNode init cond :: ast
  defines "s1 \<equiv> if sym_label sy = None then symbolMangler (arch ctx) sy else sy"
  defines "fnCtx \<equiv>
      emit [AsmComment '''',
            AsmFnPrologue (sym_label (snd (emitterFnAllocateStack K (arch ctx) s1)))
              (fst (emitterFnAllocateStack K (arch ctx) s1))]
        ((newLabels 1 ctx)\<lparr>labelReturnTo := operandLabel labelReturn (labelNo (Asm ctx))\<rparr>)"
  defines "ElseLabel \<equiv> operandLabel labelElse (labelNo (Asm c))"
    and "EndIfLabel \<equiv> operandLabel labelEndIf (labelNo (Asm c) + 1)"
    and "EndLabel \<equiv> operandLabel labelBreak (labelNo (Asm c) + 1)"
  defines "thenCtx \<equiv> emit (condCheck (firstChild s) ElseLabel) (newLabels 2 c)"
    and "loopCtx \<equiv>
      emit ((if ast_tag lNode = astCode then [] else condCheck (ast_l s) EndLabel)
            @ [AsmLabel (operandLabel labelWhile (labelNo (Asm c)))]) (loopTargets c)"
    and "iterCtx \<equiv>
      emit ((if ast_tag init = astDecl then [EmitterDecl init, AsmComment '''']
             else if astIsValueTag K (ast_tag init)
             then [EmitterValue (Some init) requestVoid, AsmComment '''']
             else [])
            @ [AsmLabel (operandLabel labelFor (labelNo (Asm c)))]
            @ (if ast_tag cond \<noteq> astEmpty then condCheck (Some cond) EndLabel else []))
        (loopTargets c)"
  shows
    "(\<not> lineTagHandled K (ast_tag s) \<longrightarrow>
        emitterLine K c s =
          Inl (Unhandled ''emitterLine'' ''AST tag'' (ast_tag s), Asm (emit [AsmComment ''''] c)))
   \<and> (\<not> moduleTagHandled (ast_tag m) \<longrightarrow>
        emitterModuleLoop K st [m] =
          Inl (Unhandled ''emitterModule'' ''AST tag'' (ast_tag m), Asm (fst st)))
   \<and> (emitterLines K c0 pre = Inr c \<and> emitterLine K c s = Inl e \<longrightarrow>
        emitterLines K c0 (pre @ s # post) = Inl e)
   \<and> (emitterModuleLoop K st0 mpre = Inr st \<and> emitterModuleLoop K st [m] = Inl e \<longrightarrow>
        emitterModuleLoop K st0 (mpre @ m # mpost) = Inl e)
   \<and> (emitterLines K (emit [AsmEnter] c) (ast_children s) = Inl e \<longrightarrow>
        emitterCode K c (Some s) = Inl e)
   \<and> (ast_tag s = astCode \<and> emitterCode K (emit [AsmComment ''''] c) (Some s) = Inl e \<longrightarrow>
        emitterLine K c s = Inl e)
   \<and> (ast_tag s = astBranch \<and> emitterBranch K (emit [AsmComment ''''] c) s = Inl e \<longrightarrow>
        emitterLine K c s = Inl e)
   \<and> (ast_tag s = astLoop \<and> emitterLoop K (emit [AsmComment ''''] c) s = Inl e \<longrightarrow>
        emitterLine K c s = Inl e)
   \<and> (ast_tag s = astIter \<and> emitterIter K (emit [AsmComment ''''] c) s = Inl e \<longrightarrow>
        emitterLine K c s = Inl e)
   \<and> (emitterCode K thenCtx (ast_l s) = Inl e \<longrightarrow> emitterBranch K c s = Inl e)
   \<and> (emitterCode K thenCtx (ast_l s) = Inr c3 \<and> ast_r s \<noteq> None
        \<and> emitterCode K (emit [AsmComment '''', AsmJump EndIfLabel, AsmLabel ElseLabel] c3)
              (ast_r s) = Inl e \<longrightarrow>
        emitterBranch K c s = Inl e)
   \<and> (ast_l s = Some lNode \<and> ast_tag lNode \<noteq> astCode
        \<and> emitterCode K loopCtx (ast_r s) = Inl e \<longrightarrow>
        emitterLoop K c s = Inl e)
   \<and> (ast_l s = Some lNode \<and> ast_tag lNode = astCode
        \<and> emitterCode K loopCtx (ast_l s) = Inl e \<longrightarrow>
        emitterLoop K c s = Inl e)
   \<and> (ast_children s = init # cond # others
        \<and> (ast_tag init = astDecl \<or> astIsValueTag K (ast_tag init) \<or> ast_tag init = astEmpty)
        \<and> emitterCode K iterCtx (ast_l s) = Inl e \<longrightarrow>
        emitterIter K c s = Inl e)
   \<and> (ast_symbol m = Some p \<and> syms p = Some sy \<and> emitterCode K fnCtx (ast_r m) = Inl e \<longrightarrow>
        emitterFnImpl K (ctx, syms) m = Inl e)
   \<and> (ast_tag m = astFnImpl \<and> emitterFnImpl K st m = Inl e \<longrightarrow>
        emitterModuleLoop K st [m] = Inl e)
   \<and> (ast_tag m = astUsing \<and> ast_r m = Some inc \<and> emitterModule K st inc = Inl e \<longrightarrow>
        emitterModuleLoop K st [m] = Inl e)
   \<and> (emitterModuleLoop K st (ast_children Tree) = Inl e \<longrightarrow> emitterModule K st Tree = Inl e)
   \<and> (emitterModule K
          ((emitterInit output arc uninit)\<lparr>Asm := asmFilePrologue (asmInit output arc)\<rparr>, syms)
          Tree = Inl e \<longrightarrow>
        emitter K syms uninit Tree output arc = Inl e)"
proof -
  have line: "\<not> lineTagHandled K (ast_tag s) \<longrightarrow>
        emitterLine K c s =
          Inl (Unhandled ''emitterLine'' ''AST tag'' (ast_tag s), Asm (emit [AsmComment ''''] c))"
    by (simp add: lineTagHandled_def emitterLine_nf)
  have top: "\<not> moduleTagHandled (ast_tag m) \<longrightarrow>
        emitterModuleLoop K st [m] =
          Inl (Unhandled ''emitterModule'' ''AST tag'' (ast_tag m), Asm (fst st))"
    by (simp add: moduleTagHandled_def debugErrorUnhandled_def)
  have lines: "emitterLines K c0 pre = Inr c \<and> emitterLine K c s = Inl e \<longrightarrow>
        emitterLines K c0 (pre @ s # post) = Inl e"
    by (simp add: emitterLines_append)
  have "emitterModuleLoop K st (m # mpost) =
          (case emitterModuleLoop K st [m] of
             Inl e \<Rightarrow> Inl e | Inr st1 \<Rightarrow> emitterModuleLoop K st1 mpost)"
    using emitterModuleLoop_append [of K st "[m]" mpost] by simp
  then have tops: "emitterModuleLoop K st0 mpre = Inr st \<and> emitterModuleLoop K st [m] = Inl e \<longrightarrow>
        emitterModuleLoop K st0 (mpre @ m # mpost) = Inl e"
    by (simp add: emitterModuleLoop_append)
  have code: "emitterLines K (emit [AsmEnter] c) (ast_children s) = Inl e \<longrightarrow>
        emitterCode K c (Some s) = Inl e"
    by (simp add: emitterCode_nf)
  have stmt: "ast_tag s = astCode \<and> emitterCode K (emit [AsmComment ''''] c) (Some s) = Inl e \<longrightarrow>
        emitterLine K c s = Inl e"
    "ast_tag s = astBranch \<and> emitterBranch K (emit [AsmComment ''''] c) s = Inl e \<longrightarrow>
        emitterLine K c s = Inl e"
    "ast_tag s = astLoop \<and> emitterLoop K (emit [AsmComment ''''] c) s = Inl e \<longrightarrow>
        emitterLine K c s = Inl e"
    "ast_tag s = astIter \<and> emitterIter K (emit [AsmComment ''''] c) s = Inl e \<longrightarrow>
        emitterLine K c s = Inl e"
    by (simp_all add: emitterLine_nf)
  have branch: "emitterCode K thenCtx (ast_l s) = Inl e \<longrightarrow> emitterBranch K c s = Inl e"
    "emitterCode K thenCtx (ast_l s) = Inr c3 \<and> ast_r s \<noteq> None
        \<and> emitterCode K (emit [AsmComment '''', AsmJump EndIfLabel, AsmLabel ElseLabel] c3)
              (ast_r s) = Inl e \<longrightarrow>
        emitterBranch K c s = Inl e"
    by (simp_all add: emitterBranch_eq thenCtx_def ElseLabel_def EndIfLabel_def)
  have loop: "ast_l s = Some lNode \<and> ast_tag lNode \<noteq> astCode
        \<and> emitterCode K loopCtx (ast_r s) = Inl e \<longrightarrow>
        emitterLoop K c s = Inl e"
    "ast_l s = Some lNode \<and> ast_tag lNode = astCode
        \<and> emitterCode K loopCtx (ast_l s) = Inl e \<longrightarrow>
        emitterLoop K c s = Inl e"
    by (auto simp: emitterLoop_eq loopCtx_def EndLabel_def)
  have iter: "ast_children s = init # cond # others
        \<and> (ast_tag init = astDecl \<or> astIsValueTag K (ast_tag init) \<or> ast_tag init = astEmpty)
        \<and> emitterCode K iterCtx (ast_l s) = Inl e \<longrightarrow>
        emitterIter K c s = Inl e"
    by (auto simp: emitterIter_nf Let_def iterCtx_def EndLabel_def loopTargets_def condCheck_def)
  have fn: "ast_symbol m = Some p \<and> syms p = Some sy \<and> emitterCode K fnCtx (ast_r m) = Inl e \<longrightarrow>
        emitterFnImpl K (ctx, syms) m = Inl e"
    by (auto simp: emitterFnImpl_eq [of m p syms sy K ctx] fnCtx_def s1_def)
  have elems: "ast_tag m = astFnImpl \<and> emitterFnImpl K st m = Inl e \<longrightarrow>
        emitterModuleLoop K st [m] = Inl e"
    "ast_tag m = astUsing \<and> ast_r m = Some inc \<and> emitterModule K st inc = Inl e \<longrightarrow>
        emitterModuleLoop K st [m] = Inl e"
    by simp_all
  have mod: "emitterModuleLoop K st (ast_children Tree) = Inl e \<longrightarrow> emitterModule K st Tree = Inl e"
    by (simp add: emitterModule.simps)
  have whole: "emitterModule K
          ((emitterInit output arc uninit)\<lparr>Asm := asmFilePrologue (asmInit output arc)\<rparr>, syms)
          Tree = Inl e \<longrightarrow>
        emitter K syms uninit Tree output arc = Inl e"
    by (simp add: emitter_def Let_def emitterInit_def)
  show ?thesis
    by (intro conjI line top lines tops code stmt branch loop iter fn elems mod whole)
qed

theorem C8_unhandled_tag_fatal_witness:
  "\<not> lineTagHandled exampleK (ast_tag strayNode)
   \<and> emitterLine exampleK ctx0 strayNode =
       Inl (Unhandled ''emitterLine'' ''AST tag'' astModule,
            \<lparr>filename = ''out.s'', emitted = [AsmComment ''''], labelNo = 0\<rparr>)
   \<and> emitter exampleK exampleSyms operandUndefined strayModule ''out.s'' exampleArch =
       Inl (Unhandled ''emitterLine'' ''AST tag'' astModule,
            \<lparr>filename = ''out.s'',
             emitted = [AsmFilePrologue, EmitterDecl declNode,
                        AsmComment '''', AsmFnPrologue (Some ''f'') 0,
                        AsmEnter,
                        AsmComment '''', EmitterValue (Some exprA) requestVoid,
                        AsmComment '''', EmitterValue (Some exprC) requestFlags,
                        AsmBranch (operandValue (Some exprC) requestFlags) (operandLabel labelElse 1),
                        AsmEnter,
                        AsmComment ''''],
             labelNo = 3\<rparr>)
   \<and> \<not> moduleTagHandled (ast_tag (Ast astReturn [] None None None))
   \<and> emitterModuleLoop exampleK (ctx0, exampleSyms) [Ast astReturn [] None None None] =
       Inl (Unhandled ''emitterModule'' ''AST tag'' astReturn,
            \<lparr>filename = ''out.s'', emitted = [], labelNo = 0\<rparr>)
   \<and> emitter exampleK exampleSyms operandUndefined strayTop ''out.s'' exampleArch =
       Inl (Unhandled ''emitterModule'' ''AST tag'' astReturn,
            \<lparr>filename = ''out.s'', emitted = [AsmFilePrologue, EmitterDecl declNode],
             labelNo = 0\<rparr>)"
proof -
  let ?ret = "Ast astReturn [] None None None"
  have line: "\<not> lineTagHandled exampleK (ast_tag strayNode)"
    by (simp add: lineTagHandled_def strayNode_def exampleK_def)
  have top: "\<not> moduleTagHandled (ast_tag ?ret)"
    by (simp add: moduleTagHandled_def)
  note fatal = C8_unhandled_tag_fatal [where K = exampleK and c = ctx0 and s = strayNode
      and m = ?ret and st = "(ctx0, exampleSyms)"]
  from fatal [THEN conjunct1, rule_format, OF line]
  have l: "emitterLine exampleK ctx0 strayNode =
       Inl (Unhandled ''emitterLine'' ''AST tag'' astModule,
            \<lparr>filename = ''out.s'', emitted = [AsmComment ''''], labelNo = 0\<rparr>)"
    by (simp add: strayNode_def ctx0_def emitterInit_def asmInit_def emit_def)
  from fatal [THEN conjunct2, THEN conjunct1, rule_format, OF top]
  have t: "emitterModuleLoop exampleK (ctx0, exampleSyms) [?ret] =
       Inl (Unhandled ''emitterModule'' ''AST tag'' astReturn,
            \<lparr>filename = ''out.s'', emitted = [], labelNo = 0\<rparr>)"
    by (simp add: ctx0_def emitterInit_def asmInit_def)
  have sym: "ast_symbol strayFn = Some 0" "exampleSyms 0 = Some scenarioA"
    by (simp_all add: strayFn_def exampleSyms_def)
  let ?c0 = "(emitterInit ''out.s'' exampleArch operandUndefined)
               \<lparr>Asm := asmFilePrologue (asmInit ''out.s'' exampleArch)\<rparr>"
  let ?c1 = "emit [EmitterDecl declNode] ?c0"
  let ?sink = "\<lparr>filename = ''out.s'',
             emitted = [AsmFilePrologue, EmitterDecl declNode,
                        AsmComment '''', AsmFnPrologue (Some ''f'') 0,
                        AsmEnter,
                        AsmComment '''', EmitterValue (Some exprA) requestVoid,
                        AsmComment '''', EmitterValue (Some exprC) requestFlags,
                        AsmBranch (operandValue (Some exprC) requestFlags) (operandLabel labelElse 1),
                        AsmEnter,
                        AsmComment ''''],
             labelNo = 3\<rparr>"
  have fn: "emitterFnImpl exampleK (?c1, exampleSyms) strayFn =
              Inl (Unhandled ''emitterLine'' ''AST tag'' astModule, ?sink)"
    unfolding emitterFnImpl_eq [of strayFn 0 exampleSyms scenarioA exampleK ?c1, OF sym]
    by (simp add: strayFn_def strayNode_def declNode_def scenarioA_def example_defs exprA_def
        exprB_def firstChild_def
        emitterInit_def asmInit_def asmFilePrologue_def asmOut_def emitterFnAllocateStack_def
        emitterCode_nf emitterLine_nf emitterBranch_nf emit_def newLabels_def)
  have tags: "ast_tag strayFn = astFnImpl" "ast_tag declNode = astDecl"
    by (simp_all add: strayFn_def declNode_def)
  have run: "emitter exampleK exampleSyms operandUndefined strayModule ''out.s'' exampleArch =
       Inl (Unhandled ''emitterLine'' ''AST tag'' astModule, ?sink)"
    by (simp add: emitter_def strayModule_def emitterModule.simps tags emitterDecl_def Let_def
        emitterInit_def asmInit_def asmFilePrologue_def asmOut_def
        fn [unfolded emit_def emitterInit_def asmInit_def asmFilePrologue_def asmOut_def,
            simplified])
  have run': "emitter exampleK exampleSyms operandUndefined strayTop ''out.s'' exampleArch =
       Inl (Unhandled ''emitterModule'' ''AST tag'' astReturn,
            \<lparr>filename = ''out.s'', emitted = [AsmFilePrologue, EmitterDecl declNode],
             labelNo = 0\<rparr>)"
    by (simp add: emitter_def emitterInit_def asmInit_def asmFilePrologue_def strayTop_def
        declNode_def emitterModule.simps prims)
  from line l run top t run' show ?thesis by (intro conjI)
qed








section \<open>Jumps outside any loop\<close>



end
